theory Spec2Isabelle
  imports Complex_Main
begin

section \<open>Python values and exceptions\<close>

text \<open>
  Python integers are unbounded, so they are \<^typ>\<open>int\<close>. Every exception the modelled code
  can raise is a constructor of \<open>error\<close>; a fallible computation returns \<open>error + 'a\<close> with
  \<open>Inl\<close> for the raised exception. \<open>KernelError\<close> stands for any exception raised inside the
  opaque attention kernel.
\<close>

datatype error =
    ZeroDivisionError
  | ValueError
  | NotImplementedError
  | AssertionError
  | RuntimeError
  | IndexError
  | KernelError

text \<open>Python's \<open>a // b\<close> on integers: floor division, raising on a zero divisor.\<close>

definition py_floordiv :: "int \<Rightarrow> int \<Rightarrow> error + int" where
  "py_floordiv a b = (if b = 0 then Inl ZeroDivisionError else Inr (a div b))"

text \<open>
  Python's \<open>int.bit_length()\<close>: the number of binary digits of the absolute value,
  \<open>0\<close> for \<open>0\<close>.
\<close>

fun bit_length_nat :: "nat \<Rightarrow> nat" where
  "bit_length_nat n = (if n = 0 then 0 else Suc (bit_length_nat (n div 2)))"

declare bit_length_nat.simps [simp del]

definition bit_length :: "int \<Rightarrow> nat" where
  "bit_length x = bit_length_nat (nat \<bar>x\<bar>)"

section \<open>Helpers imported from \<open>vllm.utils\<close>\<close>

text \<open>
  Modelled from the spec: \<open>vllm.utils.cdiv\<close> is imported by \<open>pallas.py\<close> but its body is not
  among the sources. The spec uses it as ceiling division
  (\<open>physical_width = ceil(native_width / ALIGN) * ALIGN\<close>,
  \<open>pageSize = ceil(maxModelLen / maxPagesPerSeq)\<close>). It is written here as the integer
  ceiling \<open>-(a // -b)\<close>, which raises on a zero divisor like every Python integer division.
\<close>

definition cdiv :: "int \<Rightarrow> int \<Rightarrow> error + int" where
  "cdiv a b = (case py_floordiv a (- b) of Inl e \<Rightarrow> Inl e | Inr q \<Rightarrow> Inr (- q))"

text \<open>
  Modelled from the spec: \<open>vllm.utils.next_power_of_2\<close> is imported by \<open>pallas.py\<close> but its
  body is not among the sources. The spec speaks of rounding "up to the next power of two";
  the model uses the expression that \<open>get_min_page_size\<close> writes inline for the same purpose,
  \<open>1 << (n - 1).bit_length()\<close>, and returns \<open>1\<close> (the least power of two) below \<open>1\<close>.
\<close>

definition next_power_of_2 :: "int \<Rightarrow> int" where
  "next_power_of_2 n = (if n < 1 then 1 else 2 ^ bit_length (n - 1))"

section \<open>PallasAttentionBackend: page geometry\<close>

text \<open>TPU requires the head size to be a multiple of 128.\<close>

definition TPU_HEAD_SIZE_ALIGNMENT :: int where
  "TPU_HEAD_SIZE_ALIGNMENT = 128"

text \<open>
  \<open>logger.warning_once\<close> does not influence any returned value; the model returns the
  notices next to the value so that the effect stays visible. The logger's suppression of
  repeated messages is process-wide state of the logging module and is not modelled.
\<close>

datatype notice =
    HeadSizePadded int int
  | IropeNotSupported

type_synonym kv_cache_shape = "int \<times> int \<times> int \<times> int"

definition get_kv_cache_shape ::
  "int \<Rightarrow> int \<Rightarrow> int \<Rightarrow> int \<Rightarrow> error + (kv_cache_shape \<times> notice list)" where
  "get_kv_cache_shape num_blocks block_size num_kv_heads head_size =
     (case cdiv head_size TPU_HEAD_SIZE_ALIGNMENT of
        Inl e \<Rightarrow> Inl e
      | Inr c \<Rightarrow>
          (let padded_head_size = c * TPU_HEAD_SIZE_ALIGNMENT in
           case py_floordiv (num_blocks * head_size) padded_head_size of
             Inl e \<Rightarrow> Inl e
           | Inr num_blocks' \<Rightarrow>
               Inr ((num_blocks', block_size, num_kv_heads * 2, padded_head_size),
                    (if padded_head_size \<noteq> head_size
                     then [HeadSizePadded padded_head_size num_blocks'] else []))))"

text \<open>
  The two fields of \<open>VllmConfig\<close> that the page-size functions read:
  \<open>vllm_config.scheduler_config.max_num_seqs\<close> and
  \<open>vllm_config.model_config.max_model_len\<close>.
\<close>

record scheduler_config =
  max_num_seqs :: int

record model_config =
  max_model_len :: int

record vllm_config =
  scheduler_config :: scheduler_config
  model_config :: model_config

text \<open>
  \<open>1 << k\<close> with \<open>k \<ge> 0\<close> is \<open>2 ^ k\<close>; the shift count here is a bit length, never negative.
\<close>

definition get_min_page_size :: "vllm_config \<Rightarrow> error + int" where
  "get_min_page_size cfg =
     (case py_floordiv (1024 * 1024 div 2) (max_num_seqs (scheduler_config cfg)) of
        Inl e \<Rightarrow> Inl e
      | Inr q \<Rightarrow>
          (let max_num_page_per_req = q div 4 in
           case cdiv (max_model_len (model_config cfg)) max_num_page_per_req of
             Inl e \<Rightarrow> Inl e
           | Inr min_page_size \<Rightarrow> Inr (2 ^ bit_length (min_page_size - 1))))"

definition get_page_size :: "vllm_config \<Rightarrow> int" where
  "get_page_size cfg =
     (let page_size = next_power_of_2 (max_model_len (model_config cfg)) div 16 in
      if page_size \<le> 16 then 16
      else if page_size \<ge> 256 then 256
      else page_size)"

section \<open>Tensors\<close>

text \<open>
  A contiguous \<open>torch.Tensor\<close>: its shape and its elements in row-major order. The element
  type is a parameter; the code only moves elements, pads with \<open>0.0\<close> and fills with
  \<open>1.0\<close>, so a type with \<open>0\<close> and \<open>1\<close> is all that is needed and copies are bit-exact by
  construction. A well-formed tensor has as many elements as its shape says.
\<close>

record 'a tensor =
  shape :: "nat list"
  data :: "'a list"

definition numel :: "'a tensor \<Rightarrow> nat" where
  "numel t = prod_list (shape t)"

definition wf_tensor :: "'a tensor \<Rightarrow> bool" where
  "wf_tensor t = (length (data t) = numel t)"

text \<open>The \<open>i\<close>-th run of \<open>w\<close> consecutive elements of a row-major buffer.\<close>

definition row :: "nat \<Rightarrow> nat \<Rightarrow> 'a list \<Rightarrow> 'a list" where
  "row w i xs = take w (drop (i * w) xs)"

text \<open>
  \<open>t[i, j, :]\<close> for a tensor of shape \<open>[_, c, d]\<close>, and \<open>t[i]\<close> flattened, for a tensor whose
  slices along the first axis have \<open>w\<close> elements.
\<close>

definition vec_at :: "'a tensor \<Rightarrow> nat \<Rightarrow> nat \<Rightarrow> 'a list" where
  "vec_at t i j =
     (case shape t of
        [n, c, d] \<Rightarrow> row d (i * c + j) (data t)
      | _ \<Rightarrow> [])"

definition slice_at :: "'a tensor \<Rightarrow> nat \<Rightarrow> 'a list" where
  "slice_at t i = row (prod_list (tl (shape t))) i (data t)"

text \<open>
  Shape inference of \<open>Tensor.view\<close> and \<open>Tensor.reshape\<close>: at most one dimension may be
  \<open>-1\<close>, no other may be negative, and the element count must fit. Every failure is a
  \<open>RuntimeError\<close>.
\<close>

definition infer_size :: "int list \<Rightarrow> nat \<Rightarrow> error + nat list" where
  "infer_size dims n =
     (if \<exists>d \<in> set dims. d < - 1 then Inl RuntimeError
      else if 1 < count_list dims (- 1) then Inl RuntimeError
      else
        (let newsize = nat (prod_list (filter (\<lambda>d. 0 \<le> d) dims)) in
         if - 1 \<in> set dims
         then (if 0 < newsize \<and> n mod newsize = 0
               then Inr (map (\<lambda>d. if d = - 1 then n div newsize else nat d) dims)
               else Inl RuntimeError)
         else (if n = newsize then Inr (map nat dims) else Inl RuntimeError)))"

text \<open>On a contiguous tensor \<open>view\<close> and \<open>reshape\<close> keep the buffer and change the shape.\<close>

definition view :: "'a tensor \<Rightarrow> int list \<Rightarrow> error + 'a tensor" where
  "view t dims =
     (case infer_size dims (numel t) of
        Inl e \<Rightarrow> Inl e
      | Inr s \<Rightarrow> Inr (t\<lparr>shape := s\<rparr>))"

definition reshape :: "'a tensor \<Rightarrow> int list \<Rightarrow> error + 'a tensor" where
  "reshape t dims = view t dims"

text \<open>
  \<open>torch.cat([a, b], axis=-1)\<close>: both tensors have at least one dimension and agree on all
  but the last one; a one-dimensional empty tensor is skipped, as torch does.
\<close>

definition cat_last :: "'a tensor \<Rightarrow> 'a tensor \<Rightarrow> error + 'a tensor" where
  "cat_last a b =
     (if shape a = [0] then Inr b
      else if shape b = [0] then Inr a
      else if shape a = [] \<or> shape b = [] \<or> butlast (shape a) \<noteq> butlast (shape b)
      then Inl RuntimeError
      else
        (let da = last (shape a); db = last (shape b);
             m = prod_list (butlast (shape a))
         in Inr \<lparr>shape = butlast (shape a) @ [da + db],
                 data = concat (map (\<lambda>i. row da i (data a) @ row db i (data b)) [0..<m])\<rparr>))"

text \<open>
  The buffer of \<open>torch.cat([key, value], axis=-1)\<close> when both operands have \<open>n\<close> runs of
  width \<open>D\<close>; a name for the expression in \<open>cat_last\<close>, used in the proofs.
\<close>

definition kv_rows :: "nat \<Rightarrow> nat \<Rightarrow> 'a tensor \<Rightarrow> 'a tensor \<Rightarrow> 'a list" where
  "kv_rows n D key value =
     concat (map (\<lambda>m. row D m (data key) @ row D m (data value)) [0..<n])"

text \<open>
  \<open>torch.nn.functional.pad(t, (0, p), value=0.0)\<close>: \<open>p\<close> zeros after every run along the
  last dimension.
\<close>

definition pad_last :: "'a::zero tensor \<Rightarrow> nat \<Rightarrow> error + 'a tensor" where
  "pad_last t p =
     (if shape t = [] then Inl RuntimeError
      else
        (let d = last (shape t); m = prod_list (butlast (shape t))
         in Inr \<lparr>shape = butlast (shape t) @ [d + p],
                 data = concat (map (\<lambda>i. row d i (data t) @ replicate p 0) [0..<m])\<rparr>))"

text \<open>
  \<open>t[:, :, :h]\<close>: the tensor needs three dimensions; a negative stop counts from the end,
  as Python slices do.
\<close>

definition slice_dim2 :: "'a tensor \<Rightarrow> int \<Rightarrow> error + 'a tensor" where
  "slice_dim2 t h =
     (case shape t of
        a # b # d # rest \<Rightarrow>
          (let inner = prod_list rest;
               stop = (if h < 0 then nat (int d + h) else min (nat h) d)
           in Inr \<lparr>shape = a # b # stop # rest,
                   data = concat (map (\<lambda>i. take (stop * inner) (row (d * inner) i (data t)))
                                      [0..<a * b])\<rparr>)
      | _ \<Rightarrow> Inl IndexError)"

definition ones_like :: "'a tensor \<Rightarrow> 'b::one tensor" where
  "ones_like t = \<lparr>shape = shape t, data = replicate (numel t) 1\<rparr>"

text \<open>\<open>t.flatten(0, 1)\<close> of a tensor with at least two dimensions: a view on the same buffer.\<close>

definition flatten01 :: "'a tensor \<Rightarrow> 'a tensor" where
  "flatten01 t =
     (case shape t of
        a # b # rest \<Rightarrow> t\<lparr>shape := (a * b) # rest\<rparr>
      | _ \<Rightarrow> t)"

text \<open>
  \<open>self.index_copy_(0, index, source)\<close> (named \<open>index_copy\<close> here, since a name cannot
  end in an underscore). The shapes are checked first; then the slices of
  \<open>source\<close> are copied one by one in the order of \<open>index\<close>, each index checked as it is
  reached, so that an index out of range raises with the earlier slices already written, and
  of two equal indices the later one wins. (Torch leaves the winner among equal indices
  unspecified; the properties proved below about written slots assume distinct indices.)
\<close>

definition write_row :: "nat \<Rightarrow> nat \<Rightarrow> 'a list \<Rightarrow> 'a list \<Rightarrow> 'a list" where
  "write_row w k r dst = take (k * w) dst @ r @ drop (k * w + w) dst"

fun index_copy_loop ::
  "nat \<Rightarrow> nat \<Rightarrow> 'a list \<Rightarrow> nat \<Rightarrow> int list \<Rightarrow> 'a list \<Rightarrow> (error + unit) \<times> 'a list" where
  "index_copy_loop rows w src i [] dst = (Inr (), dst)"
| "index_copy_loop rows w src i (idx # idxs) dst =
     (if 0 \<le> idx \<and> idx < int rows
      then index_copy_loop rows w src (Suc i) idxs (write_row w (nat idx) (row w i src) dst)
      else (Inl IndexError, dst))"

definition index_copy ::
  "'a tensor \<Rightarrow> int list \<Rightarrow> 'a tensor \<Rightarrow> (error + unit) \<times> 'a tensor" where
  "index_copy self index source =
     (if shape self = [] \<or> length (shape source) \<noteq> length (shape self)
      then (Inl IndexError, self)
      else if length index \<noteq> hd (shape source) then (Inl IndexError, self)
      else if tl (shape source) \<noteq> tl (shape self) then (Inl RuntimeError, self)
      else
        (case index_copy_loop (hd (shape self)) (prod_list (tl (shape self)))
                (data source) 0 index (data self) of
           (res, buf) \<Rightarrow> (res, self\<lparr>data := buf\<rparr>)))"

section \<open>write_to_kv_cache\<close>

text \<open>
  The function mutates \<open>kv_cache\<close> in place and returns nothing; the model returns the
  outcome together with the cache as it is afterwards. \<open>flatten(0, 1)\<close> is a view, so the
  write through it lands in the cache's own buffer.
  \<open>torch.ops.xla.dynamo_set_buffer_donor_\<close> only marks the buffer for the compiler and
  changes no value.
\<close>

definition write_to_kv_cache ::
  "'a tensor \<Rightarrow> 'a tensor \<Rightarrow> 'a tensor \<Rightarrow> int list \<Rightarrow> (error + unit) \<times> 'a tensor" where
  "write_to_kv_cache key value kv_cache slot_mapping =
     (case shape kv_cache of
        [num_blocks, block_size, num_combined_kv_heads, head_size] \<Rightarrow>
          (case cdiv (int head_size) TPU_HEAD_SIZE_ALIGNMENT of
             Inl e \<Rightarrow> (Inl e, kv_cache)
           | Inr c \<Rightarrow>
               (let head_size' = c * TPU_HEAD_SIZE_ALIGNMENT in
                case cat_last key value of
                  Inl e \<Rightarrow> (Inl e, kv_cache)
                | Inr kv_cat \<Rightarrow>
                    (case reshape kv_cat [- 1, int num_combined_kv_heads, head_size'] of
                       Inl e \<Rightarrow> (Inl e, kv_cache)
                     | Inr kv \<Rightarrow>
                         (case index_copy (flatten01 kv_cache) slot_mapping kv of
                            (res, flat) \<Rightarrow> (res, kv_cache\<lparr>data := data flat\<rparr>)))))
      | _ \<Rightarrow> (Inl ValueError, kv_cache))"

section \<open>PallasAttentionBackendImpl\<close>

text \<open>
  Modelled from the spec: \<open>AttentionType\<close> is imported from
  \<open>vllm.attention.backends.abstract\<close>, which is not among the sources. The spec names the
  one accepted attention type "decoder self-attention"; the constant is the string the
  constructor's default argument stands for.
\<close>

definition AttentionType_DECODER :: string where
  "AttentionType_DECODER = ''decoder''"

text \<open>
  The attributes \<open>__init__\<close> stores on \<open>self\<close>. Floats that are only stored, passed on or
  compared with \<open>1.0\<close> are \<^typ>\<open>real\<close>. \<open>kv_sharing_target_layer_name\<close> is annotated
  \<open>Optional[int]\<close> in the source.
\<close>

record pallas_impl =
  num_heads :: int
  head_size :: int
  scale :: real
  num_kv_heads :: int
  sliding_window :: "int option"
  logits_soft_cap :: "real option"
  kv_sharing_target_layer_name :: "int option"
  num_queries_per_kv :: int

text \<open>
  \<open>__init__\<close>, statement by statement. \<open>torch_xla.tpu.version()\<close> reads the environment and
  is the argument \<open>tpu_version\<close>. The result is the outcome (the exception raised, or the
  object constructed) together with the warnings logged up to that point.
\<close>

definition pallas_init ::
  "int \<Rightarrow> int \<Rightarrow> real \<Rightarrow> int \<Rightarrow> real list option \<Rightarrow> int option \<Rightarrow> string \<Rightarrow>
   'p option \<Rightarrow> real option \<Rightarrow> string \<Rightarrow> int option \<Rightarrow> bool \<Rightarrow> int \<Rightarrow>
   (error + pallas_impl) \<times> notice list" where
  "pallas_init num_heads' head_size' scale' num_kv_heads' alibi_slopes sliding_window'
     kv_cache_dtype blocksparse_params logits_soft_cap' attn_type
     kv_sharing_target_layer_name' use_irope tpu_version =
     (let log = (if use_irope then [IropeNotSupported] else []) in
      if blocksparse_params \<noteq> None then (Inl ValueError, log)
      else
        (case py_floordiv num_heads' num_kv_heads' of
           Inl e \<Rightarrow> (Inl e, log)
         | Inr q \<Rightarrow>
             if alibi_slopes \<noteq> None then (Inl NotImplementedError, log)
             else if kv_cache_dtype \<noteq> ''auto'' then (Inl NotImplementedError, log)
             else if blocksparse_params \<noteq> None then (Inl NotImplementedError, log)
             else if attn_type \<noteq> AttentionType_DECODER then (Inl NotImplementedError, log)
             else if tpu_version < 4 then (Inl NotImplementedError, log)
             else
               (Inr \<lparr>num_heads = num_heads', head_size = head_size', scale = scale',
                     num_kv_heads = num_kv_heads', sliding_window = sliding_window',
                     logits_soft_cap = logits_soft_cap',
                     kv_sharing_target_layer_name = kv_sharing_target_layer_name',
                     num_queries_per_kv = q\<rparr>, log)))"

text \<open>The two attributes of the \<open>AttentionLayer\<close> that \<open>forward\<close> reads.\<close>

record attention_layer =
  k_scale_float :: real
  v_scale_float :: real

text \<open>
  \<open>PallasMetadata\<close>. \<open>slot_mapping\<close> is a one-dimensional integer tensor, written as the
  list of its entries; the other fields are only handed to the kernel.
\<close>

record pallas_metadata =
  slot_mapping :: "int list"
  block_tables :: "int tensor"
  context_lens :: "int tensor"
  query_start_loc :: "int tensor"
  num_seqs :: "int tensor"

text \<open>
  The arguments of one call of \<open>torch.ops.xla.ragged_paged_attention\<close>. The tuning
  arguments are the constants \<open>None\<close>, \<open>None\<close>, \<open>None\<close> and \<open>use_kernel=True\<close> at the only
  call site and are left out.
\<close>

record 'a kernel_args =
  k_query :: "'a tensor"
  k_kv_cache :: "'a tensor"
  k_context_lens :: "int tensor"
  k_block_tables :: "int tensor"
  k_query_start_loc :: "int tensor"
  k_num_seqs :: "int tensor"
  k_sm_scale :: real
  k_sliding_window :: "int option"
  k_soft_cap :: "real option"

text \<open>
  What one call of \<open>forward\<close> leaves behind: the tensor returned or the exception raised,
  the page pool as it is after the call (it is mutated in place), and the kernel calls
  made, in order.
\<close>

record 'a forward_result =
  outcome :: "error + 'a tensor"
  cache_after :: "'a tensor"
  kernel_calls :: "'a kernel_args list"

definition bind_err :: "error + 'a \<Rightarrow> ('a \<Rightarrow> error + 'b) \<Rightarrow> error + 'b" where
  "bind_err m f = (case m of Inl e \<Rightarrow> Inl e | Inr x \<Rightarrow> f x)"

text \<open>
  \<open>forward\<close>. The attention kernel is opaque: it is the parameter \<open>ragged_paged_attention\<close>, a function of
  its arguments that returns the output tensor or fails (\<open>None\<close>, raised as
  \<open>KernelError\<close>); it reads the page pool and does not write it. The statements keep the
  order of the source: the output-scale check, the empty-pool return, the scale assertion,
  the three views, the padding, the conditional cache write, the kernel call, the slice and
  the final reshape.
\<close>

definition forward ::
  "pallas_impl \<Rightarrow> attention_layer \<Rightarrow> 'a::{zero,one} tensor \<Rightarrow> 'a tensor \<Rightarrow> 'a tensor \<Rightarrow>
   'a tensor \<Rightarrow> pallas_metadata \<Rightarrow> 'a tensor option \<Rightarrow> 's option \<Rightarrow>
   ('a kernel_args \<Rightarrow> 'a tensor option) \<Rightarrow> 'a forward_result" where
  "forward self layer query key value kv_cache attn_metadata output output_scale
     ragged_paged_attention =
     (if output_scale \<noteq> None
      then \<lparr>outcome = Inl NotImplementedError, cache_after = kv_cache, kernel_calls = []\<rparr>
      else if numel kv_cache = 0
      then \<lparr>outcome = Inr (case output of None \<Rightarrow> ones_like query | Some out \<Rightarrow> out),
            cache_after = kv_cache, kernel_calls = []\<rparr>
      else if \<not> (k_scale_float layer = 1 \<and> v_scale_float layer = 1)
      then \<lparr>outcome = Inl AssertionError, cache_after = kv_cache, kernel_calls = []\<rparr>
      else
        (case
           (case shape query of
              [num_tokens, hidden_size] \<Rightarrow>
                bind_err (view query [int num_tokens, num_heads self, head_size self]) (\<lambda>q3.
                bind_err (view key [- 1, num_kv_heads self, head_size self]) (\<lambda>k3.
                bind_err (view value [- 1, num_kv_heads self, head_size self]) (\<lambda>v3.
                  if head_size self mod TPU_HEAD_SIZE_ALIGNMENT \<noteq> 0
                  then
                    bind_err (cdiv (head_size self) TPU_HEAD_SIZE_ALIGNMENT) (\<lambda>c.
                      let padded_head_size = c * TPU_HEAD_SIZE_ALIGNMENT;
                          p = nat (padded_head_size - head_size self)
                      in bind_err (pad_last q3 p) (\<lambda>q.
                         bind_err (pad_last k3 p) (\<lambda>k.
                         bind_err (pad_last v3 p) (\<lambda>v.
                           Inr (num_tokens, hidden_size, q, k, v)))))
                  else Inr (num_tokens, hidden_size, q3, k3, v3))))
            | _ \<Rightarrow> Inl ValueError)
         of
           Inl e \<Rightarrow> \<lparr>outcome = Inl e, cache_after = kv_cache, kernel_calls = []\<rparr>
         | Inr (num_tokens, hidden_size, q, k, v) \<Rightarrow>
             (case
                (if kv_sharing_target_layer_name self = None \<and> 0 < numel kv_cache
                 then write_to_kv_cache k v kv_cache (slot_mapping attn_metadata)
                 else (Inr (), kv_cache))
              of
                (Inl e, cache1) \<Rightarrow>
                  \<lparr>outcome = Inl e, cache_after = cache1, kernel_calls = []\<rparr>
              | (Inr u, cache1) \<Rightarrow>
                  (let args = \<lparr>k_query = q, k_kv_cache = cache1,
                                k_context_lens = context_lens attn_metadata,
                                k_block_tables = block_tables attn_metadata,
                                k_query_start_loc = query_start_loc attn_metadata,
                                k_num_seqs = num_seqs attn_metadata,
                                k_sm_scale = scale self,
                                k_sliding_window = sliding_window self,
                                k_soft_cap = logits_soft_cap self\<rparr>
                   in case ragged_paged_attention args of
                        None \<Rightarrow>
                          \<lparr>outcome = Inl KernelError, cache_after = cache1,
                           kernel_calls = [args]\<rparr>
                      | Some out \<Rightarrow>
                          \<lparr>outcome =
                             bind_err
                               (if head_size self mod TPU_HEAD_SIZE_ALIGNMENT \<noteq> 0
                                then slice_dim2 out (head_size self)
                                else Inr out)
                               (\<lambda>out'. reshape out' [int num_tokens, int hidden_size]),
                           cache_after = cache1, kernel_calls = [args]\<rparr>))))"

section \<open>Arithmetic of the helpers\<close>

lemma bit_length_nat_upper: "n < 2 ^ bit_length_nat n"
proof (induction n rule: bit_length_nat.induct)
  case (1 n)
  show ?case
  proof (cases "n = 0")
    case True
    then show ?thesis by (simp add: bit_length_nat.simps)
  next
    case False
    with 1 have "n div 2 < 2 ^ bit_length_nat (n div 2)" by simp
    then have "n < 2 * 2 ^ bit_length_nat (n div 2)" by linarith
    with False show ?thesis by (subst bit_length_nat.simps) simp
  qed
qed

lemma bit_length_nat_lower: "0 < n \<Longrightarrow> 2 ^ (bit_length_nat n - 1) \<le> n"
proof (induction n rule: bit_length_nat.induct)
  case (1 n)
  show ?case
  proof (cases "n div 2 = 0")
    case True
    with 1 have "n = 1" by linarith
    then show ?thesis by (simp add: bit_length_nat.simps)
  next
    case False
    with 1 have ih: "2 ^ (bit_length_nat (n div 2) - 1) \<le> n div 2" by simp
    from False have pos: "0 < bit_length_nat (n div 2)"
      by (subst bit_length_nat.simps) simp
    from 1 have "bit_length_nat n = Suc (bit_length_nat (n div 2))"
      by (subst bit_length_nat.simps) simp
    then have "(2::nat) ^ (bit_length_nat n - 1) = 2 * 2 ^ (bit_length_nat (n div 2) - 1)"
      using pos by (cases "bit_length_nat (n div 2)") simp_all
    with ih show ?thesis by linarith
  qed
qed

lemma bit_length_nat_least: "n < 2 ^ j \<Longrightarrow> bit_length_nat n \<le> j"
proof (cases "n = 0")
  case True
  then show ?thesis by (simp add: bit_length_nat.simps)
next
  case False
  assume "n < 2 ^ j"
  moreover from False have "(2::nat) ^ (bit_length_nat n - 1) \<le> n"
    by (intro bit_length_nat_lower) simp
  ultimately have "(2::nat) ^ (bit_length_nat n - 1) < 2 ^ j"
    by linarith
  then have "bit_length_nat n - 1 < j"
    by (rule power_less_imp_less_exp [rotated]) simp
  then show ?thesis by linarith
qed

lemma bit_length_nat_mono: "a \<le> b \<Longrightarrow> bit_length_nat a \<le> bit_length_nat b"
  using bit_length_nat_upper [of b] by (intro bit_length_nat_least) linarith

lemma pow2_bit_length_ge: "1 \<le> c \<Longrightarrow> c \<le> (2::int) ^ bit_length (c - 1)"
proof -
  assume c: "1 \<le> c"
  have "nat (c - 1) < 2 ^ bit_length_nat (nat (c - 1))" by (rule bit_length_nat_upper)
  then have "int (nat (c - 1)) < int (2 ^ bit_length_nat (nat (c - 1)))"
    by (simp only: of_nat_less_iff)
  with c show ?thesis by (simp add: bit_length_def)
qed

lemma pow2_bit_length_least:
  assumes "1 \<le> c" and "c \<le> (2::int) ^ j"
  shows "(2::int) ^ bit_length (c - 1) \<le> 2 ^ j"
proof -
  from assms have "int (nat (c - 1)) < int (2 ^ j)" by simp
  then have "nat (c - 1) < 2 ^ j" by (simp only: of_nat_less_iff)
  then have "bit_length_nat (nat (c - 1)) \<le> j" by (rule bit_length_nat_least)
  with assms(1) show ?thesis by (simp add: bit_length_def)
qed

lemma cdiv_ceiling:
  assumes "b \<noteq> 0"
  shows "cdiv a b = Inr \<lceil>real_of_int a / real_of_int b\<rceil>"
proof -
  have "\<lceil>real_of_int a / real_of_int b\<rceil> = - \<lfloor>real_of_int a / real_of_int (- b)\<rfloor>"
    by (simp add: ceiling_def)
  also have "\<dots> = - (a div - b)"
    by (simp only: floor_divide_of_int_eq)
  finally have "- (a div - b) = \<lceil>real_of_int a / real_of_int b\<rceil>" by simp
  with assms show ?thesis by (simp add: cdiv_def py_floordiv_def)
qed

lemma round_up_128_split:
  "(h + 127) div 128 * 128 = h + 127 - (h + 127) mod (128::int)"
  by (simp add: minus_mod_eq_div_mult [symmetric])

lemma round_up_128_ge: "(h::int) \<le> (h + 127) div 128 * 128"
proof -
  have "(h + 127) mod 128 < (128::int)" by simp
  then show ?thesis unfolding round_up_128_split by linarith
qed

lemma round_up_128_pos: "1 \<le> (h::int) \<Longrightarrow> 0 < (h + 127) div 128 * 128"
  using round_up_128_ge [of h] by linarith

lemma round_up_128_least:
  assumes "(128::int) dvd q" and "h \<le> q"
  shows "(h + 127) div 128 * 128 \<le> q"
proof -
  from assms(1) obtain k where q: "q = 128 * k" ..
  from assms(2) q have "h + 127 \<le> 128 * k + 127" by simp
  then have "(h + 127) div 128 \<le> (128 * k + 127) div 128" by (rule zdiv_mono1) simp
  also have "(128 * k + 127) div 128 = k" by simp
  finally show ?thesis using q by simp
qed

lemma round_up_128_id: 
  assumes "(128::int) dvd h" shows "(h + 127) div 128 * 128 = h"
proof -
  from assms obtain k where h: "h = 128 * k" ..
  have "(128 * k + 127) div 128 = k" by simp
  with h show ?thesis by simp
qed

lemma cdiv_128: "cdiv h 128 = Inr ((h + 127) div 128)"
proof -
  have "- (h div - 128) = - ((- h) div 128)" by (simp add: div_minus_right)
  also have "\<dots> = (h + 127) div 128"
  proof -
    have "(- h) div 128 = - ((h + 127) div 128)"
    proof (rule int_div_pos_eq [where r = "127 - (h + 127) mod 128"])
      show "- h = 128 * - ((h + 127) div 128) + (127 - (h + 127) mod 128)"
        using round_up_128_split [of h] by linarith
      have "(h + 127) mod 128 < (128::int)" by simp
      then show "0 \<le> 127 - (h + 127) mod 128" by linarith
      have "0 \<le> (h + 127) mod (128::int)" by simp
      then show "127 - (h + 127) mod 128 < 128" by linarith
    qed
    then show ?thesis by simp
  qed
  finally show ?thesis by (simp add: cdiv_def py_floordiv_def)
qed

lemma floordiv_mult_le:
  assumes "0 < (p::int)"
  shows "a div p * p \<le> a"
proof -
  have "a div p * p + a mod p = a" by simp
  moreover have "0 \<le> a mod p" using assms by simp
  ultimately show ?thesis by linarith
qed

lemma next_power_of_2_mono:
  assumes "a \<le> b"
  shows "next_power_of_2 a \<le> next_power_of_2 b"
proof (cases "a < 1")
  case True
  then show ?thesis by (simp add: next_power_of_2_def)
next
  case False
  with assms have "nat \<bar>a - 1\<bar> \<le> nat \<bar>b - 1\<bar>" by simp
  then have "bit_length (a - 1) \<le> bit_length (b - 1)"
    unfolding bit_length_def by (rule bit_length_nat_mono)
  then have "(2::int) ^ bit_length (a - 1) \<le> 2 ^ bit_length (b - 1)"
    by (rule power_increasing) simp
  with False assms show ?thesis by (simp add: next_power_of_2_def)
qed

lemma max_pages_floor:
  assumes "1 \<le> s"
  shows "(1024 * 1024 div 2) div s div 4 =
         \<lfloor>(1024 * 1024 / 2) / (real_of_int s * 4)\<rfloor>"
proof -
  have "(1024 * 1024 div 2) div s div 4 = (524288::int) div (s * 4)"
    using assms by (simp add: zdiv_zmult2_eq)
  also have "\<dots> = \<lfloor>real_of_int 524288 / real_of_int (s * 4)\<rfloor>"
    by (simp only: floor_divide_of_int_eq)
  also have "\<dots> = \<lfloor>(1024 * 1024 / 2) / (real_of_int s * 4)\<rfloor>" by simp
  finally show ?thesis .
qed

lemma max_pages_pos:
  assumes "1 \<le> s" and "s \<le> 131072"
  shows "1 \<le> (1024 * 1024 div 2) div s div (4::int)"
proof -
  have "(524288::int) div 131072 \<le> 524288 div s"
    using assms by (intro zdiv_mono2) simp_all
  then have "4 \<le> (524288::int) div s" by simp
  then have "(4::int) div 4 \<le> 524288 div s div 4" by (rule zdiv_mono1) simp
  then show ?thesis by simp
qed

text \<open>
  Above 131072 concurrent sequences the page budget per sequence,
  \<open>1024 * 1024 // 2 // max_num_seqs // 4\<close>, is zero, and \<open>get_min_page_size\<close> raises.
\<close>

lemma get_min_page_size_no_budget:
  assumes "131072 < max_num_seqs (scheduler_config cfg)"
  shows "get_min_page_size cfg = Inl ZeroDivisionError"
proof -
  let ?n = "max_num_seqs (scheduler_config cfg)"
  have pos: "0 < ?n" using assms by simp
  have lt: "524288 < ?n * 4" using assms by simp
  have "524288 = ?n * (524288 div ?n) + 524288 mod ?n" by simp
  moreover have "0 \<le> 524288 mod ?n" using pos by simp
  ultimately have le: "?n * (524288 div ?n) \<le> 524288" by linarith
  have "524288 div ?n < 4"
  proof (rule ccontr)
    assume "\<not> 524288 div ?n < 4"
    then have "4 \<le> 524288 div ?n" by simp
    then have "?n * 4 \<le> ?n * (524288 div ?n)" using pos by (simp add: mult_left_mono)
    with le lt show False by linarith
  qed
  moreover have "0 \<le> 524288 div ?n" using pos by (simp add: pos_imp_zdiv_nonneg_iff)
  ultimately have "524288 div ?n div 4 = 0" by simp
  with pos show ?thesis
    by (simp add: get_min_page_size_def py_floordiv_def cdiv_def)
qed

section \<open>Where a failed call can have written\<close>






section \<open>Rows of a row-major buffer and the copy loop\<close>

lemma length_row: "i * w + w \<le> length xs \<Longrightarrow> length (row w i xs) = w"
  by (simp add: row_def)

lemma row_nth:
  assumes "p < length (row w i xs)"
  shows "row w i xs ! p = xs ! (i * w + p)"
proof -
  from assms have a: "p < w \<and> p < length xs - i * w" by (simp add: row_def)
  then have "i * w \<le> length xs" by linarith
  with a show ?thesis by (simp add: row_def)
qed

lemma length_write_row:
  "k * w + w \<le> length dst \<Longrightarrow> length r = w \<Longrightarrow> length (write_row w k r dst) = length dst"
  by (simp add: write_row_def)

lemma row_write_row_same:
  assumes "k * w + w \<le> length dst" and "length r = w"
  shows "row w k (write_row w k r dst) = r"
proof -
  from assms(1) have "length (take (k * w) dst) = k * w" by simp
  then have "drop (k * w) (write_row w k r dst) = r @ drop (k * w + w) dst"
    by (simp add: write_row_def)
  with assms(2) show ?thesis by (simp add: row_def)
qed

lemma write_row_nth_other:
  assumes "k * w + w \<le> length dst" and "length r = w"
    and "p < k * w \<or> k * w + w \<le> p" and "p < length dst"
  shows "write_row w k r dst ! p = dst ! p"
proof (cases "p < k * w")
  case True
  then show ?thesis using assms(1) by (simp add: write_row_def nth_append)
next
  case False
  with assms(3) have ge: "k * w + w \<le> p" by simp
  have l: "length (take (k * w) dst) = k * w" using assms(1) by simp
  have "write_row w k r dst ! p = (r @ drop (k * w + w) dst) ! (p - k * w)"
    using False l by (simp add: write_row_def nth_append)
  also have "\<dots> = drop (k * w + w) dst ! (p - k * w - w)"
  proof -
    from ge have "\<not> p - k * w < length r" using assms(2) by simp
    then show ?thesis using assms(2) by (simp only: nth_append if_False)
  qed
  also have "\<dots> = dst ! (k * w + w + (p - k * w - w))"
    using assms(1) by (intro nth_drop)
  also have "\<dots> = dst ! p" using ge by simp
  finally show ?thesis .
qed

lemma mult_block_disjoint:
  assumes "j \<noteq> (k::nat)" and "p < w"
  shows "j * w + p < k * w \<or> k * w + w \<le> j * w + p"
proof (cases "j < k")
  case True
  then have "Suc j \<le> k" by simp
  then have "Suc j * w \<le> k * w" by (rule mult_le_mono1)
  with assms(2) show ?thesis by simp
next
  case False
  with assms(1) have "Suc k \<le> j" by simp
  then have "Suc k * w \<le> j * w" by (rule mult_le_mono1)
  then show ?thesis by simp
qed

lemma row_write_row_other:
  assumes "k * w + w \<le> length dst" and "length r = w" and "j \<noteq> k"
  shows "row w j (write_row w k r dst) = row w j dst"
proof (rule nth_equalityI)
  show len: "length (row w j (write_row w k r dst)) = length (row w j dst)"
    using assms(1,2) by (simp add: row_def length_write_row)
  fix p
  assume p: "p < length (row w j (write_row w k r dst))"
  with len have p': "p < length (row w j dst)" by simp
  then have pw: "p < w" and pl: "j * w + p < length dst" by (auto simp: row_def)
  have "row w j (write_row w k r dst) ! p = write_row w k r dst ! (j * w + p)"
    using p by (rule row_nth)
  also have "\<dots> = dst ! (j * w + p)"
    using assms(1,2) mult_block_disjoint [OF assms(3) pw] pl by (rule write_row_nth_other)
  also have "\<dots> = row w j dst ! p" using p' by (rule row_nth [symmetric])
  finally show "row w j (write_row w k r dst) ! p = row w j dst ! p" .
qed

lemma row_row:
  assumes "j < c"
  shows "row d j (row (c * d) i xs) = row d (i * c + j) xs"
proof -
  from assms have "Suc j \<le> c" by simp
  then have "Suc j * d \<le> c * d" by (rule mult_le_mono1)
  then have "d \<le> c * d - j * d" by simp
  then have m: "min d (c * d - j * d) = d" by simp
  have e: "j * d + i * (c * d) = (i * c + j) * d" by (simp add: algebra_simps)
  have "row d j (row (c * d) i xs) = take d (take (c * d - j * d) (drop (j * d) (drop (i * (c * d)) xs)))"
    by (simp only: row_def drop_take)
  also have "\<dots> = take d (drop ((i * c + j) * d) xs)"
    by (simp only: take_take m drop_drop e)
  finally show ?thesis by (simp only: row_def)
qed

lemma length_concat_uniform:
  "(\<And>i. i < n \<Longrightarrow> length (f i) = L) \<Longrightarrow> length (concat (map f [0..<n])) = n * L"
  by (induction n) simp_all

lemma row_concat_uniform:
  assumes "\<And>i. i < n \<Longrightarrow> length (f i) = L" and "j < n"
  shows "row L j (concat (map f [0..<n])) = f j"
  using assms
proof (induction n)
  case 0
  then show ?case by simp
next
  case (Suc n)
  have len: "length (concat (map f [0..<n])) = n * L"
    using Suc.prems(1) by (intro length_concat_uniform) simp
  show ?case
  proof (cases "j < n")
    case True
    then have "Suc j * L \<le> n * L" by (intro mult_le_mono1) simp
    then have le: "j * L + L \<le> length (concat (map f [0..<n]))" using len by simp
    have ih: "row L j (concat (map f [0..<n])) = f j"
      using Suc.prems(1) True by (intro Suc.IH) simp_all
    from le have "row L j (concat (map f [0..<n]) @ f n) = row L j (concat (map f [0..<n]))"
      by (simp add: row_def)
    with ih show ?thesis by simp
  next
    case False
    with Suc.prems(2) have j: "j = n" by simp
    have "length (f n) = L" using Suc.prems(1) by simp
    with len j show ?thesis by (simp add: row_def)
  qed
qed

lemma index_copy_loop_correct:
  assumes "length dst = rows * w"
    and "\<forall>idx \<in> set idxs. 0 \<le> idx \<and> idx < int rows"
    and "(i + length idxs) * w \<le> length src"
  shows "\<exists>dst'. index_copy_loop rows w src i idxs dst = (Inr (), dst')
           \<and> length dst' = length dst
           \<and> (\<forall>r. int r \<notin> set idxs \<longrightarrow> row w r dst' = row w r dst)
           \<and> (distinct idxs \<longrightarrow>
                (\<forall>j < length idxs. row w (nat (idxs ! j)) dst' = row w (i + j) src))"
  using assms
proof (induction idxs arbitrary: i dst)
  case Nil
  then show ?case by simp
next
  case (Cons idx idxs)
  define dst1 where "dst1 = write_row w (nat idx) (row w i src) dst"
  from Cons.prems(2) have rng: "0 \<le> idx" "idx < int rows" by simp_all
  then have "Suc (nat idx) \<le> rows" by linarith
  then have "Suc (nat idx) * w \<le> rows * w" by (rule mult_le_mono1)
  with Cons.prems(1) have fit: "nat idx * w + w \<le> length dst" by simp
  have "Suc i * w \<le> (i + length (idx # idxs)) * w" by (intro mult_le_mono1) simp
  then have "Suc i * w \<le> length src" using Cons.prems(3) by (rule order_trans)
  then have "i * w + w \<le> length src" by simp
  then have lr: "length (row w i src) = w" by (rule length_row)
  have l1: "length dst1 = rows * w"
    unfolding dst1_def using fit lr Cons.prems(1) by (simp add: length_write_row)
  have "\<exists>dst'. index_copy_loop rows w src (Suc i) idxs dst1 = (Inr (), dst')
           \<and> length dst' = length dst1
           \<and> (\<forall>r. int r \<notin> set idxs \<longrightarrow> row w r dst' = row w r dst1)
           \<and> (distinct idxs \<longrightarrow>
                (\<forall>j < length idxs. row w (nat (idxs ! j)) dst' = row w (Suc i + j) src))"
    using l1 Cons.prems(2,3) by (intro Cons.IH) simp_all
  then obtain dst' where
    run: "index_copy_loop rows w src (Suc i) idxs dst1 = (Inr (), dst')"
    and len: "length dst' = length dst1"
    and frame: "\<And>r. int r \<notin> set idxs \<Longrightarrow> row w r dst' = row w r dst1"
    and written: "\<And>j. distinct idxs \<Longrightarrow> j < length idxs \<Longrightarrow>
        row w (nat (idxs ! j)) dst' = row w (Suc i + j) src"
    by blast
  have run': "index_copy_loop rows w src i (idx # idxs) dst = (Inr (), dst')"
    using rng run by (simp add: dst1_def)
  have len': "length dst' = length dst" using len l1 Cons.prems(1) by simp
  have frame': "\<forall>r. int r \<notin> set (idx # idxs) \<longrightarrow> row w r dst' = row w r dst"
  proof (intro allI impI)
    fix r
    assume r: "int r \<notin> set (idx # idxs)"
    then have "r \<noteq> nat idx" using rng by auto
    then have "row w r dst1 = row w r dst"
      unfolding dst1_def using fit lr by (intro row_write_row_other)
    with frame [of r] r show "row w r dst' = row w r dst" by simp
  qed
  have written': "distinct (idx # idxs) \<longrightarrow>
      (\<forall>j < length (idx # idxs). row w (nat ((idx # idxs) ! j)) dst' = row w (i + j) src)"
  proof (intro allI impI)
    fix j
    assume d: "distinct (idx # idxs)" and j: "j < length (idx # idxs)"
    show "row w (nat ((idx # idxs) ! j)) dst' = row w (i + j) src"
    proof (cases j)
      case 0
      from d rng have "int (nat idx) \<notin> set idxs" by simp
      then have "row w (nat idx) dst' = row w (nat idx) dst1" by (rule frame)
      also have "\<dots> = row w i src"
        unfolding dst1_def using fit lr by (rule row_write_row_same)
      finally show ?thesis using 0 by simp
    next
      case (Suc j')
      with d j written [of j'] show ?thesis by simp
    qed
  qed
  from run' len' frame' written' show ?case by blast
qed

lemma aligned_head_size:
  assumes "128 dvd (D::nat)"
  shows "cdiv (int D) TPU_HEAD_SIZE_ALIGNMENT = Inr ((int D + 127) div 128)"
    and "(int D + 127) div 128 * TPU_HEAD_SIZE_ALIGNMENT = int D"
proof -
  show "cdiv (int D) TPU_HEAD_SIZE_ALIGNMENT = Inr ((int D + 127) div 128)"
    unfolding TPU_HEAD_SIZE_ALIGNMENT_def by (rule cdiv_128)
  from assms have "(128::int) dvd int D" by presburger
  then show "(int D + 127) div 128 * TPU_HEAD_SIZE_ALIGNMENT = int D"
    unfolding TPU_HEAD_SIZE_ALIGNMENT_def by (rule round_up_128_id)
qed

lemma cat_last_3d:
  assumes "shape a = [T, H, D]" and "shape b = [T, H, D]"
  shows "cat_last a b =
    Inr \<lparr>shape = [T, H, D + D],
         data = concat (map (\<lambda>m. row D m (data a) @ row D m (data b)) [0..<T * H])\<rparr>"
  using assms by (simp add: cat_last_def Let_def)

lemma infer_size_rows:
  assumes "0 < c" and "0 < d"
  shows "infer_size [- 1, int c, int d] (t * (c * d)) = Inr [t, c, d]"
proof -
  have n: "nat (int c * int d) = c * d" by (simp add: nat_mult_distrib)
  have cnt: "count_list [- 1, int c, int d] (- 1) = 1" by simp
  from assms have pos: "0 < c * d" by simp
  show ?thesis
    unfolding infer_size_def using pos by (simp add: Let_def n)
qed

lemma reshape_rows:
  assumes "0 < c" and "0 < d" and "numel t = n * (c * d)"
  shows "reshape t [- 1, int c, int d] = Inr (t\<lparr>shape := [n, c, d]\<rparr>)"
  using infer_size_rows [OF assms(1,2), of n] assms(3)
  by (simp add: reshape_def view_def)

lemma write_to_kv_cache_run:
  assumes sc: "shape kv_cache = [N, B, 2 * H, D]"
    and D: "0 < D" "128 dvd D" and H: "0 < H"
    and sk: "shape key = [T, H, D]" and sv: "shape value = [T, H, D]"
    and len: "length slots = T"
  shows "write_to_kv_cache key value kv_cache slots =
    (case index_copy_loop (N * B) (2 * H * D) (kv_rows (T * H) D key value) 0 slots
            (data kv_cache) of
       (res, buf) \<Rightarrow> (res, kv_cache\<lparr>data := buf\<rparr>))"
proof -
  let ?kv = "\<lparr>shape = [T, H, D + D], data = kv_rows (T * H) D key value\<rparr>"
  have cat: "cat_last key value = Inr ?kv"
    unfolding kv_rows_def using sk sv by (rule cat_last_3d)
  have "numel ?kv = T * (2 * H * D)" by (simp add: numel_def)
  then have ne: "numel ?kv = T * ((2 * H) * D)" by simp
  have rs: "reshape ?kv [- 1, int (2 * H), int D] = Inr (?kv\<lparr>shape := [T, 2 * H, D]\<rparr>)"
    using H D(1) ne by (intro reshape_rows) simp_all
  have fl: "flatten01 kv_cache = kv_cache\<lparr>shape := [N * B, 2 * H, D]\<rparr>"
    using sc by (simp add: flatten01_def)
  have ic: "index_copy (kv_cache\<lparr>shape := [N * B, 2 * H, D]\<rparr>) slots
               \<lparr>shape = [T, 2 * H, D], data = kv_rows (T * H) D key value\<rparr> =
      (case index_copy_loop (N * B) (2 * H * D) (kv_rows (T * H) D key value) 0 slots
              (data kv_cache) of
         (res, buf) \<Rightarrow> (res, kv_cache\<lparr>shape := [N * B, 2 * H, D], data := buf\<rparr>))"
    using len by (simp add: index_copy_def)
  show ?thesis
    unfolding write_to_kv_cache_def sc
    by (auto simp: aligned_head_size [OF D(2)] cat rs [simplified] fl ic Let_def
        split: prod.splits)
qed

lemma length_kv_rows:
  assumes "length (data key) = n * D" and "length (data value) = n * D"
  shows "length (kv_rows n D key value) = n * (D + D)"
  unfolding kv_rows_def
proof (rule length_concat_uniform)
  fix m
  assume "m < n"
  then have "Suc m * D \<le> n * D" by (intro mult_le_mono1) simp
  then have "m * D + D \<le> n * D" by simp
  with assms show "length (row D m (data key) @ row D m (data value)) = D + D"
    by (simp add: length_row)
qed

lemma row_0_append: "length a = D \<Longrightarrow> row D 0 (a @ b) = a"
  by (simp add: row_def)

lemma row_1_append: "length a = D \<Longrightarrow> length b = D \<Longrightarrow> row D 1 (a @ b) = b"
  by (simp add: row_def)

lemma row_kv_rows:
  assumes "length (data key) = n * D" and "length (data value) = n * D" and "m < n"
  shows "row D (m * 2) (kv_rows n D key value) = row D m (data key)"
    and "row D (m * 2 + 1) (kv_rows n D key value) = row D m (data value)"
proof -
  have len: "\<And>i. i < n \<Longrightarrow> length (row D i (data key) @ row D i (data value)) = 2 * D"
  proof -
    fix i
    assume "i < n"
    then have "Suc i * D \<le> n * D" by (intro mult_le_mono1) simp
    then have "i * D + D \<le> n * D" by simp
    with assms(1,2) show "length (row D i (data key) @ row D i (data value)) = 2 * D"
      by (simp add: length_row)
  qed
  from assms(3) have "Suc m * D \<le> n * D" by (intro mult_le_mono1) simp
  then have fit: "m * D + D \<le> n * D" by simp
  have lk: "length (row D m (data key)) = D" using fit assms(1) by (simp add: length_row)
  have lv: "length (row D m (data value)) = D" using fit assms(2) by (simp add: length_row)
  have blk: "row (2 * D) m (kv_rows n D key value) = row D m (data key) @ row D m (data value)"
    unfolding kv_rows_def using len assms(3) by (rule row_concat_uniform)
  have "row D (m * 2 + 0) (kv_rows n D key value) = row D 0 (row (2 * D) m (kv_rows n D key value))"
    by (rule row_row [symmetric]) simp
  also have "\<dots> = row D m (data key)" unfolding blk using lk by (rule row_0_append)
  finally show "row D (m * 2) (kv_rows n D key value) = row D m (data key)" by simp
  have "row D (m * 2 + 1) (kv_rows n D key value) = row D 1 (row (2 * D) m (kv_rows n D key value))"
    by (rule row_row [symmetric]) simp
  also have "\<dots> = row D m (data value)" unfolding blk using lk lv by (rule row_1_append)
  finally show "row D (m * 2 + 1) (kv_rows n D key value) = row D m (data value)" .
qed

lemma write_to_kv_cache_loop:
  assumes sc: "shape kv_cache = [N, B, 2 * H, D]" and wc: "wf_tensor kv_cache"
    and D: "0 < D" "128 dvd D" and H: "0 < H"
    and sk: "shape key = [T, H, D]" and wk: "wf_tensor key"
    and sv: "shape value = [T, H, D]" and wv: "wf_tensor value"
    and len: "length slots = T"
    and rng: "\<forall>s \<in> set slots. 0 \<le> s \<and> s < int (N * B)"
  shows "\<exists>buf. write_to_kv_cache key value kv_cache slots = (Inr (), kv_cache\<lparr>data := buf\<rparr>)
           \<and> length buf = length (data kv_cache)
           \<and> (\<forall>r. int r \<notin> set slots \<longrightarrow>
                 row (2 * H * D) r buf = row (2 * H * D) r (data kv_cache))
           \<and> (distinct slots \<longrightarrow>
                (\<forall>j < T. row (2 * H * D) (nat (slots ! j)) buf =
                          row (2 * H * D) j (kv_rows (T * H) D key value)))"
proof -
  have lc: "length (data kv_cache) = N * B * (2 * H * D)"
    using wc sc by (simp add: wf_tensor_def numel_def)
  have lk: "length (data key) = T * H * D" using wk sk by (simp add: wf_tensor_def numel_def)
  have lv: "length (data value) = T * H * D" using wv sv by (simp add: wf_tensor_def numel_def)
  have "length (kv_rows (T * H) D key value) = T * H * (D + D)"
    using lk lv by (rule length_kv_rows)
  then have ls: "(0 + length slots) * (2 * H * D) \<le> length (kv_rows (T * H) D key value)"
    using len by (simp add: algebra_simps)
  from index_copy_loop_correct [OF lc rng ls]
  obtain buf where
    run: "index_copy_loop (N * B) (2 * H * D) (kv_rows (T * H) D key value) 0 slots
            (data kv_cache) = (Inr (), buf)"
    and l: "length buf = length (data kv_cache)"
    and frame: "\<forall>r. int r \<notin> set slots \<longrightarrow>
        row (2 * H * D) r buf = row (2 * H * D) r (data kv_cache)"
    and written: "distinct slots \<longrightarrow>
        (\<forall>j < length slots. row (2 * H * D) (nat (slots ! j)) buf =
            row (2 * H * D) (0 + j) (kv_rows (T * H) D key value))"
    by blast
  have "write_to_kv_cache key value kv_cache slots = (Inr (), kv_cache\<lparr>data := buf\<rparr>)"
    using write_to_kv_cache_run [OF sc D H sk sv len] run by simp
  with l frame written len show ?thesis by auto
qed

section \<open>Views, padding and slicing on the main path of the attention step\<close>

lemma view_3d:
  assumes "numel t = a * (b * c)"
  shows "view t [int a, int b, int c] = Inr (t\<lparr>shape := [a, b, c]\<rparr>)"
proof -
  have n: "nat (int a * (int b * int c)) = a * (b * c)" by (simp add: nat_mult_distrib)
  show ?thesis using assms by (simp add: view_def infer_size_def Let_def n)
qed

lemma view_2d:
  assumes "numel t = a * b"
  shows "view t [int a, int b] = Inr (t\<lparr>shape := [a, b]\<rparr>)"
proof -
  have n: "nat (int a * int b) = a * b" by (simp add: nat_mult_distrib)
  show ?thesis using assms by (simp add: view_def infer_size_def Let_def n)
qed

lemma view_rows:
  assumes "0 < c" and "0 < d" and "numel t = n * (c * d)"
  shows "view t [- 1, int c, int d] = Inr (t\<lparr>shape := [n, c, d]\<rparr>)"
  using reshape_rows [OF assms] by (simp add: reshape_def)

lemma padded_width:
  assumes "128 dvd (Dp::nat)" and "D \<le> Dp" and "Dp < D + 128"
  shows "(int D + 127) div 128 * 128 = int Dp"
proof -
  from assms(1) obtain k where k: "Dp = 128 * k" ..
  have "(int D + 127) div 128 = int k"
  proof (rule int_div_pos_eq [where r = "int D + 127 - 128 * int k"])
    show "int D + 127 = 128 * int k + (int D + 127 - 128 * int k)" by simp
    show "0 \<le> int D + 127 - 128 * int k" using assms(3) k by linarith
    show "int D + 127 - 128 * int k < 128" using assms(2) k by linarith
  qed
  with k show ?thesis by simp
qed

lemma pad_last_3d:
  assumes "shape t = [a, b, d]"
  shows "pad_last t p =
    Inr \<lparr>shape = [a, b, d + p],
         data = concat (map (\<lambda>i. row d i (data t) @ replicate p 0) [0..<a * b])\<rparr>"
  using assms by (simp add: pad_last_def Let_def)

lemma padded_rows:
  assumes "length xs = n * d" and "i < n"
  shows "row (d + p) i (concat (map (\<lambda>i. row d i xs @ replicate p 0) [0..<n])) =
         row d i xs @ replicate p 0"
proof (rule row_concat_uniform)
  fix j
  assume "j < n"
  then have "Suc j * d \<le> n * d" by (intro mult_le_mono1) simp
  then have "j * d + d \<le> length xs" using assms(1) by simp
  then show "length (row d j xs @ replicate p 0) = d + p" by (simp add: length_row)
next
  show "i < n" by (rule assms(2))
qed

lemma length_padded:
  assumes "length xs = n * d"
  shows "length (concat (map (\<lambda>i. row d i xs @ replicate p 0) [0..<n])) = n * (d + p)"
proof (rule length_concat_uniform)
  fix j
  assume "j < n"
  then have "Suc j * d \<le> n * d" by (intro mult_le_mono1) simp
  then have "j * d + d \<le> length xs" using assms(1) by simp
  then show "length (row d j xs @ replicate p 0) = d + p" by (simp add: length_row)
qed

lemma slice_dim2_3d:
  assumes "shape t = [a, b, dp]" and "d \<le> dp"
  shows "slice_dim2 t (int d) =
    Inr \<lparr>shape = [a, b, d],
         data = concat (map (\<lambda>i. take d (row dp i (data t))) [0..<a * b])\<rparr>"
  using assms by (simp add: slice_dim2_def Let_def min_def)

lemma sliced_rows:
  assumes "length xs = n * dp" and "d \<le> dp" and "i < n"
  shows "row d i (concat (map (\<lambda>i. take d (row dp i xs)) [0..<n])) = take d (row dp i xs)"
proof (rule row_concat_uniform)
  fix j
  assume "j < n"
  then have "Suc j * dp \<le> n * dp" by (intro mult_le_mono1) simp
  then have "j * dp + dp \<le> length xs" using assms(1) by simp
  then have "length (row dp j xs) = dp" by (rule length_row)
  with assms(2) show "length (take d (row dp j xs)) = d" by simp
next
  show "i < n" by (rule assms(3))
qed

lemma forward_main_path:
  fixes query :: "'a::{zero,one} tensor"
  assumes os: "output_scale = None"
    and ne: "0 < numel kv_cache"
    and sc: "k_scale_float layer = 1" "v_scale_float layer = 1"
    and sq: "shape query = [T, hidden]"
    and vq: "view query [int T, num_heads self, head_size self] = Inr q3"
    and vk: "view key [- 1, num_kv_heads self, head_size self] = Inr k3"
    and vv: "view value [- 1, num_kv_heads self, head_size self] = Inr v3"
    and md: "head_size self mod TPU_HEAD_SIZE_ALIGNMENT \<noteq> 0"
    and cd: "cdiv (head_size self) TPU_HEAD_SIZE_ALIGNMENT = Inr c"
    and pq: "pad_last q3 (nat (c * TPU_HEAD_SIZE_ALIGNMENT - head_size self)) = Inr qp"
    and pk: "pad_last k3 (nat (c * TPU_HEAD_SIZE_ALIGNMENT - head_size self)) = Inr kp"
    and pv: "pad_last v3 (nat (c * TPU_HEAD_SIZE_ALIGNMENT - head_size self)) = Inr vp"
    and wr: "(if kv_sharing_target_layer_name self = None
              then write_to_kv_cache kp vp kv_cache (slot_mapping attn_metadata)
              else (Inr (), kv_cache)) = (Inr (), cache')"
    and ke: "ragged_paged_attention
               \<lparr>k_query = qp, k_kv_cache = cache',
                k_context_lens = context_lens attn_metadata,
                k_block_tables = block_tables attn_metadata,
                k_query_start_loc = query_start_loc attn_metadata,
                k_num_seqs = num_seqs attn_metadata,
                k_sm_scale = scale self,
                k_sliding_window = sliding_window self,
                k_soft_cap = logits_soft_cap self\<rparr> = Some out"
    and sl: "slice_dim2 out (head_size self) = Inr out'"
    and rs: "reshape out' [int T, int hidden] = Inr res"
  shows "forward self layer query key value kv_cache attn_metadata out_buf output_scale
           ragged_paged_attention =
         \<lparr>outcome = Inr res, cache_after = cache',
          kernel_calls =
            [\<lparr>k_query = qp, k_kv_cache = cache',
              k_context_lens = context_lens attn_metadata,
              k_block_tables = block_tables attn_metadata,
              k_query_start_loc = query_start_loc attn_metadata,
              k_num_seqs = num_seqs attn_metadata,
              k_sm_scale = scale self,
              k_sliding_window = sliding_window self,
              k_soft_cap = logits_soft_cap self\<rparr>]\<rparr>"
proof (cases "kv_sharing_target_layer_name self = None")
  case True
  with wr have w: "write_to_kv_cache kp vp kv_cache (slot_mapping attn_metadata) = (Inr (), cache')"
    by simp
  show ?thesis
    unfolding forward_def
    using os ne sc md True
    by (simp add: sq vq vk vv cd pq pk pv w ke sl rs bind_err_def Let_def)
next
  case False
  with wr have w: "cache' = kv_cache" by simp
  from False obtain y where y: "kv_sharing_target_layer_name self = Some y" by blast
  show ?thesis
    unfolding forward_def
    using os ne sc md ke sl rs
    by (simp add: sq vq vk vv cd pq pk pv w y bind_err_def Let_def)
qed

section \<open>Page geometry: the claims\<close>

text \<open>
  Claim C1, as amended. For every requested page count, page size, kv-head count and every
  native head width of at least one, \<open>get_kv_cache_shape\<close> returns the shape
  \<open>(pageCount', pageSize, 2 * numKvHeads, physicalWidth)\<close> where \<open>physicalWidth\<close> is the
  smallest multiple of 128 that is at least the native head width (the ceiling of
  \<open>headWidth / 128\<close> times 128), \<open>pageCount'\<close> is the floor of
  \<open>requestedPageCount * headWidth / physicalWidth\<close>, and
  \<open>pageCount' * physicalWidth \<le> requestedPageCount * headWidth\<close>, with equality when the
  native head width is already a multiple of the alignment boundary.
\<close>

theorem get_kv_cache_shape_geometry:
  assumes "1 \<le> head_width"
  shows "\<exists>num_blocks' padded_width log.
           get_kv_cache_shape num_blocks block_size kv_heads head_width =
             Inr ((num_blocks', block_size, 2 * kv_heads, padded_width), log)
         \<and> TPU_HEAD_SIZE_ALIGNMENT dvd padded_width
         \<and> head_width \<le> padded_width
         \<and> (\<forall>q. TPU_HEAD_SIZE_ALIGNMENT dvd q \<and> head_width \<le> q \<longrightarrow> padded_width \<le> q)
         \<and> padded_width =
             \<lceil>real_of_int head_width / real_of_int TPU_HEAD_SIZE_ALIGNMENT\<rceil> * TPU_HEAD_SIZE_ALIGNMENT
         \<and> num_blocks' =
             \<lfloor>real_of_int (num_blocks * head_width) / real_of_int padded_width\<rfloor>
         \<and> num_blocks' * padded_width \<le> num_blocks * head_width
         \<and> (TPU_HEAD_SIZE_ALIGNMENT dvd head_width \<longrightarrow>
               num_blocks' * padded_width = num_blocks * head_width)"
proof -
  define p where "p = (head_width + 127) div 128 * 128"
  define n where "n = (num_blocks * head_width) div p"
  have ppos: "0 < p" using assms unfolding p_def by (rule round_up_128_pos)
  have c: "cdiv head_width TPU_HEAD_SIZE_ALIGNMENT = Inr ((head_width + 127) div 128)"
    unfolding TPU_HEAD_SIZE_ALIGNMENT_def by (rule cdiv_128)
  have f: "py_floordiv (num_blocks * head_width) p = Inr n"
    using ppos by (simp add: py_floordiv_def n_def)
  have run: "get_kv_cache_shape num_blocks block_size kv_heads head_width =
      Inr ((n, block_size, 2 * kv_heads, p),
           (if p \<noteq> head_width then [HeadSizePadded p n] else []))"
    unfolding get_kv_cache_shape_def c
    by (simp add: Let_def TPU_HEAD_SIZE_ALIGNMENT_def p_def [symmetric] f)
  have dvdp: "TPU_HEAD_SIZE_ALIGNMENT dvd p"
    by (simp add: p_def TPU_HEAD_SIZE_ALIGNMENT_def)
  have ge: "head_width \<le> p" unfolding p_def by (rule round_up_128_ge)
  have least: "\<forall>q. TPU_HEAD_SIZE_ALIGNMENT dvd q \<and> head_width \<le> q \<longrightarrow> p \<le> q"
    unfolding p_def TPU_HEAD_SIZE_ALIGNMENT_def by (simp add: round_up_128_least)
  have "cdiv head_width TPU_HEAD_SIZE_ALIGNMENT =
      Inr \<lceil>real_of_int head_width / real_of_int TPU_HEAD_SIZE_ALIGNMENT\<rceil>"
    by (rule cdiv_ceiling) (simp add: TPU_HEAD_SIZE_ALIGNMENT_def)
  with c have ceil: "p = \<lceil>real_of_int head_width / real_of_int TPU_HEAD_SIZE_ALIGNMENT\<rceil> *
      TPU_HEAD_SIZE_ALIGNMENT"
    by (simp add: p_def TPU_HEAD_SIZE_ALIGNMENT_def)
  have flr: "n = \<lfloor>real_of_int (num_blocks * head_width) / real_of_int p\<rfloor>"
    unfolding n_def by (simp only: floor_divide_of_int_eq)
  have le: "n * p \<le> num_blocks * head_width"
    unfolding n_def using ppos by (rule floordiv_mult_le)
  have eq: "TPU_HEAD_SIZE_ALIGNMENT dvd head_width \<longrightarrow> n * p = num_blocks * head_width"
  proof
    assume "TPU_HEAD_SIZE_ALIGNMENT dvd head_width"
    then have "p = head_width"
      unfolding p_def TPU_HEAD_SIZE_ALIGNMENT_def by (rule round_up_128_id)
    with ppos show "n * p = num_blocks * head_width" by (simp add: n_def)
  qed
  from run dvdp ge least ceil flr le eq show ?thesis by blast
qed

text \<open>The theorem at head width 96 and ten requested pages: seven pages of width 128.\<close>

theorem get_kv_cache_shape_geometry_witness:
  "(1::int) \<le> 96 \<and>
   (\<exists>num_blocks' padded_width log.
      get_kv_cache_shape 10 16 8 96 = Inr ((num_blocks', 16, 16, padded_width), log)
      \<and> padded_width = 128 \<and> num_blocks' = 7
      \<and> num_blocks' * padded_width \<le> 10 * 96)"
proof -
  have h: "(1::int) \<le> 96" by simp
  from get_kv_cache_shape_geometry [OF h, of 10 16 8]
  obtain n p l where
    run: "get_kv_cache_shape 10 16 8 96 = Inr ((n, 16, 2 * 8, p), l)"
    and le: "n * p \<le> 10 * 96"
    by blast
  have "get_kv_cache_shape 10 16 8 96 = Inr ((7, 16, 16, 128), [HeadSizePadded 128 7])"
    by (simp add: get_kv_cache_shape_def cdiv_def py_floordiv_def TPU_HEAD_SIZE_ALIGNMENT_def)
  with run have "n = 7" and "p = 128" by simp_all
  with run le h show ?thesis by simp
qed

text \<open>
  Claim C1 as stated fails. A head width of 64 divides the alignment boundary 128, yet one
  requested page yields zero physical pages, so \<open>0 * 128 \<noteq> 1 * 64\<close>; and a head width of
  zero makes the padded width zero and the page-count division raise.
\<close>

theorem get_kv_cache_shape_counterexample:
  "get_kv_cache_shape 1 16 8 64 = Inr ((0, 16, 16, 128), [HeadSizePadded 128 0])
   \<and> (64::int) dvd TPU_HEAD_SIZE_ALIGNMENT
   \<and> (0::int) * 128 \<noteq> 1 * 64
   \<and> get_kv_cache_shape 1 16 8 0 = Inl ZeroDivisionError"
  by (simp add: get_kv_cache_shape_def cdiv_def py_floordiv_def TPU_HEAD_SIZE_ALIGNMENT_def)

text \<open>
  Claim C7, as amended. For every \<open>max_model_len \<ge> 1\<close> and every \<open>max_num_seqs\<close> between 1
  and 131072, \<open>get_min_page_size\<close> returns the smallest power of two that is at least
  \<open>ceil(max_model_len / maxPagesPerSeq)\<close>, where
  \<open>maxPagesPerSeq = floor((1MB / 2) / (max_num_seqs * 4))\<close>.
\<close>

theorem get_min_page_size_pow2:
  assumes "1 \<le> max_model_len (model_config cfg)"
    and "1 \<le> max_num_seqs (scheduler_config cfg)"
    and "max_num_seqs (scheduler_config cfg) \<le> 131072"
  shows "\<exists>r k max_pages_per_seq c.
           max_pages_per_seq =
             \<lfloor>(1024 * 1024 / 2) / (real_of_int (max_num_seqs (scheduler_config cfg)) * 4)\<rfloor>
         \<and> c = \<lceil>real_of_int (max_model_len (model_config cfg)) / real_of_int max_pages_per_seq\<rceil>
         \<and> get_min_page_size cfg = Inr r
         \<and> r = 2 ^ k \<and> c \<le> r \<and> (\<forall>j. c \<le> 2 ^ j \<longrightarrow> r \<le> 2 ^ j)"
proof -
  define s where "s = max_num_seqs (scheduler_config cfg)"
  define m where "m = max_model_len (model_config cfg)"
  define mp where "mp = 524288 div s div (4::int)"
  define c where "c = \<lceil>real_of_int m / real_of_int mp\<rceil>"
  have mp1: "1 \<le> mp"
    using max_pages_pos [OF assms(2,3)] by (simp add: mp_def s_def)
  have mpf: "mp = \<lfloor>(1024 * 1024 / 2) / (real_of_int s * 4)\<rfloor>"
    using max_pages_floor [OF assms(2)] by (simp add: mp_def s_def)
  have q: "py_floordiv (1024 * 1024 div 2) s = Inr ((1024 * 1024 div 2) div s)"
    using assms(2) by (simp add: py_floordiv_def s_def)
  have cd: "cdiv m mp = Inr c"
    unfolding c_def using mp1 by (intro cdiv_ceiling) simp
  have "0 < real_of_int m / real_of_int mp" using assms(1) mp1 by (simp add: m_def)
  then have c1: "1 \<le> c" unfolding c_def by linarith
  have run: "get_min_page_size cfg = Inr (2 ^ bit_length (c - 1))"
    unfolding get_min_page_size_def s_def [symmetric] m_def [symmetric] q
    by (simp add: Let_def mp_def [symmetric] cd)
  have ge: "c \<le> 2 ^ bit_length (c - 1)" using c1 by (rule pow2_bit_length_ge)
  have least: "\<forall>j. c \<le> 2 ^ j \<longrightarrow> (2::int) ^ bit_length (c - 1) \<le> 2 ^ j"
    using c1 by (blast intro: pow2_bit_length_least)
  from mpf run ge least show ?thesis
    unfolding c_def s_def m_def by blast
qed

text \<open>The theorem at \<open>max_model_len = 2048\<close> and \<open>max_num_seqs = 256\<close>: page size 4.\<close>

theorem get_min_page_size_pow2_witness:
  "(1::int) \<le> 2048 \<and> (1::int) \<le> 256 \<and> (256::int) \<le> 131072
   \<and> get_min_page_size \<lparr>scheduler_config = \<lparr>max_num_seqs = 256\<rparr>, model_config = \<lparr>max_model_len = 2048\<rparr>\<rparr> = Inr 4
   \<and> (\<exists>r k. get_min_page_size \<lparr>scheduler_config = \<lparr>max_num_seqs = 256\<rparr>, model_config = \<lparr>max_model_len = 2048\<rparr>\<rparr> = Inr r
        \<and> r = 2 ^ k)"
proof -
  let ?cfg = "\<lparr>scheduler_config = \<lparr>max_num_seqs = 256\<rparr>, model_config = \<lparr>max_model_len = 2048\<rparr>\<rparr>"
  have h1: "1 \<le> max_model_len (model_config ?cfg)" by simp
  have h2: "1 \<le> max_num_seqs (scheduler_config ?cfg)" by simp
  have h3: "max_num_seqs (scheduler_config ?cfg) \<le> 131072" by simp
  from get_min_page_size_pow2 [OF h1 h2 h3]
  have ex: "\<exists>r k. get_min_page_size ?cfg = Inr r \<and> r = 2 ^ k" by blast
  have v: "get_min_page_size ?cfg = Inr 4" by code_simp
  from ex v show ?thesis by simp
qed

text \<open>
  Claim C7 as stated fails. With more than 131072 concurrent sequences the page budget per
  sequence is zero and the ceiling division raises instead of returning a page size.
\<close>

theorem get_min_page_size_counterexample:
  "(1::int) \<le> 2048 \<and> (1::int) \<le> 131073
   \<and> get_min_page_size \<lparr>scheduler_config = \<lparr>max_num_seqs = 131073\<rparr>, model_config = \<lparr>max_model_len = 2048\<rparr>\<rparr>
       = Inl ZeroDivisionError"
  by (simp add: get_min_page_size_def py_floordiv_def cdiv_def)

text \<open>
  Claim C8. \<open>get_page_size\<close> is non-decreasing in \<open>max_model_len\<close>, and for every
  \<open>max_model_len\<close> its result lies in the closed interval from 16 to 256.
\<close>

theorem get_page_size_monotone_bounded:
  "(max_model_len (model_config cfg1) \<le> max_model_len (model_config cfg2) \<longrightarrow>
      get_page_size cfg1 \<le> get_page_size cfg2)
   \<and> 16 \<le> get_page_size cfg1 \<and> get_page_size cfg1 \<le> 256"
proof (intro conjI impI)
  assume le: "max_model_len (model_config cfg1) \<le> max_model_len (model_config cfg2)"
  have "next_power_of_2 (max_model_len (model_config cfg1)) div 16
      \<le> next_power_of_2 (max_model_len (model_config cfg2)) div 16"
    using next_power_of_2_mono [OF le] by (rule zdiv_mono1) simp
  then show "get_page_size cfg1 \<le> get_page_size cfg2"
    by (simp add: get_page_size_def Let_def)
next
  show "16 \<le> get_page_size cfg1" by (simp add: get_page_size_def Let_def)
next
  show "get_page_size cfg1 \<le> 256" by (simp add: get_page_size_def Let_def)
qed

text \<open>The theorem at the model lengths 257 and 2048: page sizes 32 and 128.\<close>

theorem get_page_size_monotone_bounded_witness:
  "(257::int) \<le> 2048
   \<and> get_page_size \<lparr>scheduler_config = \<lparr>max_num_seqs = 8\<rparr>, model_config = \<lparr>max_model_len = 257\<rparr>\<rparr> = 32
   \<and> get_page_size \<lparr>scheduler_config = \<lparr>max_num_seqs = 8\<rparr>, model_config = \<lparr>max_model_len = 2048\<rparr>\<rparr> = 128
   \<and> get_page_size \<lparr>scheduler_config = \<lparr>max_num_seqs = 8\<rparr>, model_config = \<lparr>max_model_len = 257\<rparr>\<rparr>
       \<le> get_page_size \<lparr>scheduler_config = \<lparr>max_num_seqs = 8\<rparr>, model_config = \<lparr>max_model_len = 2048\<rparr>\<rparr>"
proof -
  have a: "get_page_size \<lparr>scheduler_config = \<lparr>max_num_seqs = 8\<rparr>, model_config = \<lparr>max_model_len = 257\<rparr>\<rparr> = 32"
    by code_simp
  have b: "get_page_size \<lparr>scheduler_config = \<lparr>max_num_seqs = 8\<rparr>, model_config = \<lparr>max_model_len = 2048\<rparr>\<rparr> = 128"
    by code_simp
  from get_page_size_monotone_bounded
    [of "\<lparr>scheduler_config = \<lparr>max_num_seqs = 8\<rparr>, model_config = \<lparr>max_model_len = 257\<rparr>\<rparr>"
        "\<lparr>scheduler_config = \<lparr>max_num_seqs = 8\<rparr>, model_config = \<lparr>max_model_len = 2048\<rparr>\<rparr>"]
  have "get_page_size \<lparr>scheduler_config = \<lparr>max_num_seqs = 8\<rparr>, model_config = \<lparr>max_model_len = 257\<rparr>\<rparr>
       \<le> get_page_size \<lparr>scheduler_config = \<lparr>max_num_seqs = 8\<rparr>, model_config = \<lparr>max_model_len = 2048\<rparr>\<rparr>"
    by simp
  with a b show ?thesis by simp
qed

section \<open>Construction and the attention step: the claims\<close>

text \<open>
  Claim C6, as amended. With a non-zero number of kv heads, constructing the attention
  implementation raises if and only if one of the rejected configurations holds: alibi
  slopes are given, block-sparse parameters are given, the KV-cache dtype is not \<open>auto\<close>, the
  attention type is not the decoder type, or the TPU version is below 4. The check is made by
  the constructor; the object it builds stores none of the checked settings, so \<open>forward\<close>,
  which receives only that object, cannot check them again.
\<close>

theorem pallas_init_rejects_iff:
  assumes "kv_heads \<noteq> 0"
  shows "((\<exists>e. fst (pallas_init heads width sm_scale kv_heads alibi_slopes window kv_cache_dtype
                    blocksparse_params soft_cap attn_type sharing use_irope tpu_version) = Inl e)
          \<longleftrightarrow> (alibi_slopes \<noteq> None \<or> blocksparse_params \<noteq> None \<or> kv_cache_dtype \<noteq> ''auto''
               \<or> attn_type \<noteq> AttentionType_DECODER \<or> tpu_version < 4))
       \<and> (\<forall>impl. fst (pallas_init heads width sm_scale kv_heads alibi_slopes window
                        kv_cache_dtype blocksparse_params soft_cap attn_type sharing use_irope
                        tpu_version) = Inr impl
             \<longrightarrow> impl = \<lparr>num_heads = heads, head_size = width, scale = sm_scale,
                         num_kv_heads = kv_heads, sliding_window = window,
                         logits_soft_cap = soft_cap, kv_sharing_target_layer_name = sharing,
                         num_queries_per_kv = heads div kv_heads\<rparr>)"
  using assms by (auto simp: pallas_init_def py_floordiv_def Let_def)

text \<open>
  The theorem with two kv heads: the dtype \<open>fp8\<close> is rejected, and the accepted
  configuration with eight heads stores four queries per kv head.
\<close>

theorem pallas_init_rejects_iff_witness:
  "(2 :: int) \<noteq> 0
   \<and> (\<exists>e. fst (pallas_init 8 128 1 2 None None ''fp8'' (None :: unit option) None
                  AttentionType_DECODER None False 5) = Inl e)
   \<and> fst (pallas_init 8 128 1 2 None None ''auto'' (None :: unit option) None
            AttentionType_DECODER None False 5)
       = Inr \<lparr>num_heads = 8, head_size = 128, scale = 1, num_kv_heads = 2,
              sliding_window = None, logits_soft_cap = None,
              kv_sharing_target_layer_name = None, num_queries_per_kv = 4\<rparr>"
proof -
  have h: "(2 :: int) \<noteq> 0" by simp
  from pallas_init_rejects_iff [OF h, of 8 128 1 None None "''fp8''" "None :: unit option" None
      AttentionType_DECODER None False 5]
  have a: "\<exists>e. fst (pallas_init 8 128 1 2 None None ''fp8'' (None :: unit option) None
                  AttentionType_DECODER None False 5) = Inl e"
    by simp
  from pallas_init_rejects_iff [OF h, of 8 128 1 None None "''auto''" "None :: unit option" None
      AttentionType_DECODER None False 5]
  have "\<not> (\<exists>e. fst (pallas_init 8 128 1 2 None None ''auto'' (None :: unit option) None
                  AttentionType_DECODER None False 5) = Inl e)"
    by simp
  then obtain impl where
    r: "fst (pallas_init 8 128 1 2 None None ''auto'' (None :: unit option) None
                  AttentionType_DECODER None False 5) = Inr impl"
    by (cases "fst (pallas_init 8 128 1 2 None None ''auto'' (None :: unit option) None
                  AttentionType_DECODER None False 5)") auto
  with pallas_init_rejects_iff [OF h, of 8 128 1 None None "''auto''" "None :: unit option" None
      AttentionType_DECODER None False 5]
  have "impl = \<lparr>num_heads = 8, head_size = 128, scale = 1, num_kv_heads = 2,
              sliding_window = None, logits_soft_cap = None,
              kv_sharing_target_layer_name = None, num_queries_per_kv = 8 div 2\<rparr>"
    by blast
  with r have b: "fst (pallas_init 8 128 1 2 None None ''auto'' (None :: unit option) None
            AttentionType_DECODER None False 5)
       = Inr \<lparr>num_heads = 8, head_size = 128, scale = 1, num_kv_heads = 2,
              sliding_window = None, logits_soft_cap = None,
              kv_sharing_target_layer_name = None, num_queries_per_kv = 4\<rparr>"
    by simp
  from h a b show ?thesis by blast
qed

text \<open>
  Claim C6 as stated fails. With zero kv heads the constructor raises
  \<open>ZeroDivisionError\<close> from \<open>num_heads // num_kv_heads\<close> although no rejected configuration
  holds.
\<close>

theorem pallas_init_rejects_iff_counterexample:
  "fst (pallas_init 8 128 1 0 (None :: real list option) None ''auto'' (None :: unit option) None
          AttentionType_DECODER None False 5) = Inl ZeroDivisionError
   \<and> ''auto'' = ''auto'' \<and> \<not> (5 :: int) < 4"
  by (simp add: pallas_init_def py_floordiv_def)

text \<open>
  Claim C3, as amended. If the page pool has no elements and no output scale is supplied,
  \<open>forward\<close> returns without raising, leaves the page pool as it was and makes no kernel
  call; the tensor returned is the caller's output buffer when one is supplied, and otherwise
  a tensor of ones of the same shape as the query.
\<close>

theorem forward_empty_pool:
  assumes "numel kv_cache = 0" and "output_scale = None"
  shows "\<exists>out.
           forward self layer query key value kv_cache attn_metadata out_buf output_scale
             ragged_paged_attention =
             \<lparr>outcome = Inr out, cache_after = kv_cache, kernel_calls = []\<rparr>
         \<and> (case out_buf of
               None \<Rightarrow> shape out = shape query \<and> data out = replicate (numel query) 1
             | Some buf \<Rightarrow> out = buf)"
  using assms by (simp add: forward_def ones_like_def split: option.splits)

text \<open>The theorem on an empty pool, without an output buffer.\<close>

theorem forward_empty_pool_witness:
  "numel \<lparr>shape = [0, 16, 2, 128], data = ([] :: int list)\<rparr> = 0
   \<and> (None :: int option) = None
   \<and> forward
        \<lparr>num_heads = 1, head_size = 2, scale = 1, num_kv_heads = 1, sliding_window = None,
         logits_soft_cap = None, kv_sharing_target_layer_name = None,
         num_queries_per_kv = 1\<rparr>
        \<lparr>k_scale_float = 1, v_scale_float = 1\<rparr>
        \<lparr>shape = [1, 2], data = [5, 6 :: int]\<rparr>
        \<lparr>shape = [1, 2], data = [7, 8]\<rparr>
        \<lparr>shape = [1, 2], data = [9, 10]\<rparr>
        \<lparr>shape = [0, 16, 2, 128], data = []\<rparr>
        \<lparr>slot_mapping = [0], block_tables = \<lparr>shape = [1, 1], data = [0]\<rparr>,
         context_lens = \<lparr>shape = [1], data = [0]\<rparr>,
         query_start_loc = \<lparr>shape = [2], data = [0, 1]\<rparr>,
         num_seqs = \<lparr>shape = [1], data = [1]\<rparr>\<rparr>
        None (None :: int option) (\<lambda>a. Some (k_query a))
      = \<lparr>outcome = Inr \<lparr>shape = [1, 2], data = [1, 1]\<rparr>,
         cache_after = \<lparr>shape = [0, 16, 2, 128], data = []\<rparr>, kernel_calls = []\<rparr>"
proof -
  let ?c = "\<lparr>shape = [0, 16, 2, 128], data = ([] :: int list)\<rparr>"
  let ?q = "\<lparr>shape = [1, 2], data = [5, 6 :: int]\<rparr>"
  have h1: "numel ?c = 0" by (simp add: numel_def)
  have h2: "(None :: int option) = None" by simp
  have "\<exists>out.
      forward
        \<lparr>num_heads = 1, head_size = 2, scale = 1, num_kv_heads = 1, sliding_window = None,
         logits_soft_cap = None, kv_sharing_target_layer_name = None,
         num_queries_per_kv = 1\<rparr>
        \<lparr>k_scale_float = 1, v_scale_float = 1\<rparr>
        ?q
        \<lparr>shape = [1, 2], data = [7, 8]\<rparr>
        \<lparr>shape = [1, 2], data = [9, 10]\<rparr>
        ?c
        \<lparr>slot_mapping = [0], block_tables = \<lparr>shape = [1, 1], data = [0]\<rparr>,
         context_lens = \<lparr>shape = [1], data = [0]\<rparr>,
         query_start_loc = \<lparr>shape = [2], data = [0, 1]\<rparr>,
         num_seqs = \<lparr>shape = [1], data = [1]\<rparr>\<rparr>
        None (None :: int option) (\<lambda>a. Some (k_query a))
      = \<lparr>outcome = Inr out, cache_after = ?c, kernel_calls = []\<rparr>
      \<and> (case (None :: int tensor option) of
            None \<Rightarrow> shape out = shape ?q \<and> data out = replicate (numel ?q) 1
          | Some buf \<Rightarrow> out = buf)"
    by (rule forward_empty_pool [OF h1 h2])
  then obtain out where
    run: "forward
        \<lparr>num_heads = 1, head_size = 2, scale = 1, num_kv_heads = 1, sliding_window = None,
         logits_soft_cap = None, kv_sharing_target_layer_name = None,
         num_queries_per_kv = 1\<rparr>
        \<lparr>k_scale_float = 1, v_scale_float = 1\<rparr>
        ?q
        \<lparr>shape = [1, 2], data = [7, 8]\<rparr>
        \<lparr>shape = [1, 2], data = [9, 10]\<rparr>
        ?c
        \<lparr>slot_mapping = [0], block_tables = \<lparr>shape = [1, 1], data = [0]\<rparr>,
         context_lens = \<lparr>shape = [1], data = [0]\<rparr>,
         query_start_loc = \<lparr>shape = [2], data = [0, 1]\<rparr>,
         num_seqs = \<lparr>shape = [1], data = [1]\<rparr>\<rparr>
        None (None :: int option) (\<lambda>a. Some (k_query a))
      = \<lparr>outcome = Inr out, cache_after = ?c, kernel_calls = []\<rparr>"
    and sh: "shape out = [1, 2]" and da: "data out = replicate (numel ?q) 1"
    by auto
  from da have "data out = [1, 1]" by (simp add: numel_def numeral_2_eq_2)
  with sh have "out = \<lparr>shape = [1, 2], data = [1, 1]\<rparr>" by (cases out) simp
  with run h1 show ?thesis by simp
qed

text \<open>
  Claim C3 as stated fails. Given an output buffer of shape \<open>[1]\<close> and a query of shape
  \<open>[2, 3]\<close>, the call on an empty pool returns the buffer, whose shape is not the query's.
\<close>

theorem forward_empty_pool_counterexample:
  "numel \<lparr>shape = [0, 16, 2, 128], data = ([] :: int list)\<rparr> = 0
   \<and> outcome
        (forward
           \<lparr>num_heads = 1, head_size = 2, scale = 1, num_kv_heads = 1, sliding_window = None,
            logits_soft_cap = None, kv_sharing_target_layer_name = None,
            num_queries_per_kv = 1\<rparr>
           \<lparr>k_scale_float = 1, v_scale_float = 1\<rparr>
           \<lparr>shape = [2, 3], data = [1, 2, 3, 4, 5, 6 :: int]\<rparr>
           \<lparr>shape = [2, 3], data = [1, 2, 3, 4, 5, 6]\<rparr>
           \<lparr>shape = [2, 3], data = [1, 2, 3, 4, 5, 6]\<rparr>
           \<lparr>shape = [0, 16, 2, 128], data = []\<rparr>
           \<lparr>slot_mapping = [0, 1], block_tables = \<lparr>shape = [1, 1], data = [0]\<rparr>,
            context_lens = \<lparr>shape = [1], data = [0]\<rparr>,
            query_start_loc = \<lparr>shape = [2], data = [0, 2]\<rparr>,
            num_seqs = \<lparr>shape = [1], data = [1]\<rparr>\<rparr>
           (Some \<lparr>shape = [1], data = [7]\<rparr>) (None :: int option) (\<lambda>a. Some (k_query a)))
      = Inr \<lparr>shape = [1], data = [7]\<rparr>
   \<and> shape \<lparr>shape = [1], data = [7 :: int]\<rparr>
       \<noteq> shape \<lparr>shape = [2, 3], data = [1, 2, 3, 4, 5, 6 :: int]\<rparr>"
  by (simp add: forward_def numel_def)

text \<open>
  Claim C4. On a layer whose \<open>kv_sharing_target_layer_name\<close> is set, every call of
  \<open>forward\<close>, whatever its other arguments and whatever the kernel does with them, leaves the
  page pool exactly as it was.
\<close>

theorem forward_kv_sharing_preserves_cache:
  assumes "kv_sharing_target_layer_name self \<noteq> None"
  shows "cache_after (forward self layer query key value kv_cache attn_metadata output
           output_scale ragged_paged_attention) = kv_cache"
proof -
  from assms obtain y where "kv_sharing_target_layer_name self = Some y" by blast
  then show ?thesis
    by (simp add: forward_def Let_def split: sum.splits prod.splits option.splits list.splits)
qed

text \<open>The theorem on a sharing layer with one token.\<close>

theorem forward_kv_sharing_preserves_cache_witness:
  "kv_sharing_target_layer_name
     \<lparr>num_heads = 1, head_size = 2, scale = 1, num_kv_heads = 1, sliding_window = None,
      logits_soft_cap = None, kv_sharing_target_layer_name = Some 0,
      num_queries_per_kv = 1\<rparr> \<noteq> None
   \<and> cache_after
        (forward
           \<lparr>num_heads = 1, head_size = 2, scale = 1, num_kv_heads = 1, sliding_window = None,
            logits_soft_cap = None, kv_sharing_target_layer_name = Some 0,
            num_queries_per_kv = 1\<rparr>
           \<lparr>k_scale_float = 1, v_scale_float = 1\<rparr>
           \<lparr>shape = [1, 2], data = [5, 6 :: int]\<rparr>
           \<lparr>shape = [1, 2], data = [7, 8]\<rparr>
           \<lparr>shape = [1, 2], data = [9, 10]\<rparr>
           \<lparr>shape = [1, 1, 2, 2], data = [0, 0, 0, 0]\<rparr>
           \<lparr>slot_mapping = [0], block_tables = \<lparr>shape = [1, 1], data = [0]\<rparr>,
            context_lens = \<lparr>shape = [1], data = [0]\<rparr>,
            query_start_loc = \<lparr>shape = [2], data = [0, 1]\<rparr>,
            num_seqs = \<lparr>shape = [1], data = [1]\<rparr>\<rparr>
           None (None :: int option) (\<lambda>a. Some (k_query a)))
      = \<lparr>shape = [1, 1, 2, 2], data = [0, 0, 0, 0]\<rparr>"
proof -
  let ?self = "\<lparr>num_heads = 1, head_size = 2, scale = 1, num_kv_heads = 1,
      sliding_window = None, logits_soft_cap = None, kv_sharing_target_layer_name = Some 0,
      num_queries_per_kv = 1\<rparr>"
  have h: "kv_sharing_target_layer_name ?self \<noteq> None" by simp
  from forward_kv_sharing_preserves_cache [OF h] h show ?thesis by blast
qed




section \<open>The cache write: the claims\<close>

text \<open>
  Claim C2, as amended. Let the page pool have shape \<open>[N, B, 2 * H, D]\<close> with \<open>D\<close> a positive
  multiple of 128, let key and value have shape \<open>[T, H, D]\<close>, and let the slot mapping hold
  \<open>T\<close> pairwise distinct indices, each in range. Then \<open>write_to_kv_cache\<close> succeeds, and
  afterwards the flattened pool's row at index \<open>slot_mapping[i]\<close> holds token \<open>i\<close>: for every
  head \<open>h\<close> the key vector at position \<open>2 * h\<close> and the value vector at position
  \<open>2 * h + 1\<close>, element for element as passed in.
\<close>

theorem write_to_kv_cache_round_trip:
  assumes "shape kv_cache = [N, B, 2 * H, D]" and "wf_tensor kv_cache"
    and "0 < D" and "128 dvd D" and "0 < H"
    and "shape key = [T, H, D]" and "wf_tensor key"
    and "shape value = [T, H, D]" and "wf_tensor value"
    and "length slots = T"
    and "\<forall>s \<in> set slots. 0 \<le> s \<and> s < int (N * B)"
    and "distinct slots"
  shows "\<exists>cache'.
           write_to_kv_cache key value kv_cache slots = (Inr (), cache')
         \<and> shape cache' = shape kv_cache
         \<and> (\<forall>i < T. \<forall>h < H.
               vec_at (flatten01 cache') (nat (slots ! i)) (2 * h) = vec_at key i h
             \<and> vec_at (flatten01 cache') (nat (slots ! i)) (2 * h + 1) = vec_at value i h)"
proof -
  from write_to_kv_cache_loop [OF assms(1-11)] assms(12)
  obtain buf where
    run: "write_to_kv_cache key value kv_cache slots = (Inr (), kv_cache\<lparr>data := buf\<rparr>)"
    and written: "\<And>j. j < T \<Longrightarrow> row (2 * H * D) (nat (slots ! j)) buf =
        row (2 * H * D) j (kv_rows (T * H) D key value)"
    by blast
  have lk: "length (data key) = T * H * D"
    using assms(6,7) by (simp add: wf_tensor_def numel_def)
  have lv: "length (data value) = T * H * D"
    using assms(8,9) by (simp add: wf_tensor_def numel_def)
  have va: "\<And>s j. vec_at (flatten01 (kv_cache\<lparr>data := buf\<rparr>)) s j = row D (s * (2 * H) + j) buf"
    using assms(1) by (simp add: vec_at_def flatten01_def)
  have vk: "\<And>i h. vec_at key i h = row D (i * H + h) (data key)"
    using assms(6) by (simp add: vec_at_def)
  have vv: "\<And>i h. vec_at value i h = row D (i * H + h) (data value)"
    using assms(8) by (simp add: vec_at_def)
  have cell: "\<And>i h j. i < T \<Longrightarrow> h < H \<Longrightarrow> j < 2 \<Longrightarrow>
      row D (nat (slots ! i) * (2 * H) + (2 * h + j)) buf =
      row D ((i * H + h) * 2 + j) (kv_rows (T * H) D key value)"
  proof -
    fix i h j
    assume i: "i < T" and h: "h < H" and j: "j < (2::nat)"
    from h j have c: "2 * h + j < 2 * H" by simp
    have "row D (nat (slots ! i) * (2 * H) + (2 * h + j)) buf =
        row D (2 * h + j) (row (2 * H * D) (nat (slots ! i)) buf)"
      using c by (rule row_row [symmetric])
    also have "\<dots> = row D (2 * h + j) (row (2 * H * D) i (kv_rows (T * H) D key value))"
      using i by (simp only: written)
    also have "\<dots> = row D (i * (2 * H) + (2 * h + j)) (kv_rows (T * H) D key value)"
      using c by (rule row_row)
    also have "i * (2 * H) + (2 * h + j) = (i * H + h) * 2 + j" by (simp add: algebra_simps)
    finally show "row D (nat (slots ! i) * (2 * H) + (2 * h + j)) buf =
      row D ((i * H + h) * 2 + j) (kv_rows (T * H) D key value)" .
  qed
  have idx: "\<And>i h. i < T \<Longrightarrow> h < H \<Longrightarrow> i * H + h < T * H"
  proof -
    fix i h :: nat
    assume "i < T" and h: "h < H"
    then have "Suc i * H \<le> T * H" by (intro mult_le_mono1) simp
    with h show "i * H + h < T * H" by simp
  qed
  have "\<forall>i < T. \<forall>h < H.
      vec_at (flatten01 (kv_cache\<lparr>data := buf\<rparr>)) (nat (slots ! i)) (2 * h) = vec_at key i h
    \<and> vec_at (flatten01 (kv_cache\<lparr>data := buf\<rparr>)) (nat (slots ! i)) (2 * h + 1) = vec_at value i h"
  proof (intro allI impI conjI)
    fix i h
    assume i: "i < T" and h: "h < H"
    have "vec_at (flatten01 (kv_cache\<lparr>data := buf\<rparr>)) (nat (slots ! i)) (2 * h) =
        row D (nat (slots ! i) * (2 * H) + (2 * h + 0)) buf"
      by (simp add: va)
    also have "\<dots> = row D ((i * H + h) * 2 + 0) (kv_rows (T * H) D key value)"
      using i h by (intro cell) simp_all
    also have "\<dots> = row D (i * H + h) (data key)"
      using row_kv_rows(1) [OF lk lv idx [OF i h]] by simp
    finally show "vec_at (flatten01 (kv_cache\<lparr>data := buf\<rparr>)) (nat (slots ! i)) (2 * h) =
        vec_at key i h"
      by (simp add: vk)
    have "vec_at (flatten01 (kv_cache\<lparr>data := buf\<rparr>)) (nat (slots ! i)) (2 * h + 1) =
        row D (nat (slots ! i) * (2 * H) + (2 * h + 1)) buf"
      by (simp add: va)
    also have "\<dots> = row D ((i * H + h) * 2 + 1) (kv_rows (T * H) D key value)"
      using i h by (intro cell) simp_all
    also have "\<dots> = row D (i * H + h) (data value)"
      using row_kv_rows(2) [OF lk lv idx [OF i h]] by simp
    finally show "vec_at (flatten01 (kv_cache\<lparr>data := buf\<rparr>)) (nat (slots ! i)) (2 * h + 1) =
        vec_at value i h"
      by (simp add: vv)
  qed
  with run show ?thesis by auto
qed

text \<open>The theorem for one token written to slot 1 of a pool of two slots.\<close>

theorem write_to_kv_cache_round_trip_witness:
  "\<exists>cache'.
     write_to_kv_cache
       \<lparr>shape = [1, 1, 128], data = replicate 128 (1 :: int)\<rparr>
       \<lparr>shape = [1, 1, 128], data = replicate 128 2\<rparr>
       \<lparr>shape = [1, 2, 2, 128], data = replicate 512 0\<rparr> [1] = (Inr (), cache')
   \<and> vec_at (flatten01 cache') 1 0 = replicate 128 1
   \<and> vec_at (flatten01 cache') 1 1 = replicate 128 2"
proof -
  let ?k = "\<lparr>shape = [1, 1, 128], data = replicate 128 (1 :: int)\<rparr>"
  let ?v = "\<lparr>shape = [1, 1, 128], data = replicate 128 (2 :: int)\<rparr>"
  let ?c = "\<lparr>shape = [1, 2, 2, 128], data = replicate 512 (0 :: int)\<rparr>"
  have "\<exists>cache'.
           write_to_kv_cache ?k ?v ?c [1] = (Inr (), cache')
         \<and> shape cache' = shape ?c
         \<and> (\<forall>i < 1. \<forall>h < 1.
               vec_at (flatten01 cache') (nat ([1] ! i)) (2 * h) = vec_at ?k i h
             \<and> vec_at (flatten01 cache') (nat ([1] ! i)) (2 * h + 1) = vec_at ?v i h)"
    by (rule write_to_kv_cache_round_trip
          [where N = 1 and B = 2 and H = 1 and D = 128 and T = 1])
       (simp_all add: wf_tensor_def numel_def)
  then obtain cache' where
    run: "write_to_kv_cache ?k ?v ?c [1] = (Inr (), cache')"
    and k: "vec_at (flatten01 cache') (nat ([1] ! 0)) (2 * 0) = vec_at ?k 0 0"
    and v: "vec_at (flatten01 cache') (nat ([1] ! 0)) (2 * 0 + 1) = vec_at ?v 0 0"
    by auto
  have "vec_at ?k 0 0 = replicate 128 1" by (simp add: vec_at_def row_def)
  with k have k': "vec_at (flatten01 cache') 1 0 = replicate 128 1" by simp
  have "vec_at ?v 0 0 = replicate 128 2" by (simp add: vec_at_def row_def)
  with v have v': "vec_at (flatten01 cache') 1 1 = replicate 128 2" by simp
  from run k' v' show ?thesis by blast
qed

text \<open>
  Claim C2 as stated fails. Two tokens mapped to the same in-range slot 0 cannot both be
  read back from it: the row holds the second token's key, not the first one's.
\<close>

theorem write_to_kv_cache_round_trip_counterexample:
  "fst (write_to_kv_cache
          \<lparr>shape = [2, 1, 128], data = replicate 128 (1 :: int) @ replicate 128 2\<rparr>
          \<lparr>shape = [2, 1, 128], data = replicate 128 3 @ replicate 128 4\<rparr>
          \<lparr>shape = [1, 1, 2, 128], data = replicate 256 0\<rparr> [0, 0]) = Inr ()
   \<and> vec_at
       (flatten01
          (snd (write_to_kv_cache
                  \<lparr>shape = [2, 1, 128], data = replicate 128 (1 :: int) @ replicate 128 2\<rparr>
                  \<lparr>shape = [2, 1, 128], data = replicate 128 3 @ replicate 128 4\<rparr>
                  \<lparr>shape = [1, 1, 2, 128], data = replicate 256 0\<rparr> [0, 0])))
       (nat ([0, 0] ! 0)) (2 * 0)
     = replicate 128 2
   \<and> vec_at \<lparr>shape = [2, 1, 128], data = replicate 128 (1 :: int) @ replicate 128 2\<rparr> 0 0
     = replicate 128 1
   \<and> replicate 128 (2 :: int) \<noteq> replicate 128 1"
  by code_simp

text \<open>
  Claim C10. For a call of \<open>write_to_kv_cache\<close> with a pool of shape \<open>[N, B, 2 * H, D]\<close>
  (\<open>D\<close> a positive multiple of 128), key and value of shape \<open>[T, H, D]\<close> and \<open>T\<close> slot indices
  in range, the call succeeds and every row of the flattened pool whose index does not occur
  in the slot mapping holds the same contents after the call as before it.
\<close>

theorem write_to_kv_cache_frame:
  assumes "shape kv_cache = [N, B, 2 * H, D]" and "wf_tensor kv_cache"
    and "0 < D" and "128 dvd D" and "0 < H"
    and "shape key = [T, H, D]" and "wf_tensor key"
    and "shape value = [T, H, D]" and "wf_tensor value"
    and "length slots = T"
    and "\<forall>s \<in> set slots. 0 \<le> s \<and> s < int (N * B)"
  shows "\<exists>cache'.
           write_to_kv_cache key value kv_cache slots = (Inr (), cache')
         \<and> shape cache' = shape kv_cache
         \<and> wf_tensor cache'
         \<and> (\<forall>r. int r \<notin> set slots \<longrightarrow>
               slice_at (flatten01 cache') r = slice_at (flatten01 kv_cache) r)"
proof -
  from write_to_kv_cache_loop [OF assms]
  obtain buf where
    run: "write_to_kv_cache key value kv_cache slots = (Inr (), kv_cache\<lparr>data := buf\<rparr>)"
    and l: "length buf = length (data kv_cache)"
    and frame: "\<And>r. int r \<notin> set slots \<Longrightarrow>
        row (2 * H * D) r buf = row (2 * H * D) r (data kv_cache)"
    by blast
  have wf: "wf_tensor (kv_cache\<lparr>data := buf\<rparr>)"
    using assms(2) l by (simp add: wf_tensor_def numel_def)
  have sl: "\<And>c r. shape c = [N, B, 2 * H, D] \<Longrightarrow>
      slice_at (flatten01 c) r = row (2 * H * D) r (data c)"
    by (simp add: slice_at_def flatten01_def)
  have "\<forall>r. int r \<notin> set slots \<longrightarrow>
      slice_at (flatten01 (kv_cache\<lparr>data := buf\<rparr>)) r = slice_at (flatten01 kv_cache) r"
    using frame assms(1) by (simp add: sl)
  with run wf show ?thesis by auto
qed

text \<open>The theorem for one token written to slot 1: slot 0 keeps its zeros.\<close>

theorem write_to_kv_cache_frame_witness:
  "\<exists>cache'.
     write_to_kv_cache
       \<lparr>shape = [1, 1, 128], data = replicate 128 (1 :: int)\<rparr>
       \<lparr>shape = [1, 1, 128], data = replicate 128 2\<rparr>
       \<lparr>shape = [1, 2, 2, 128], data = replicate 512 0\<rparr> [1] = (Inr (), cache')
   \<and> slice_at (flatten01 cache') 0 = replicate 256 0"
proof -
  let ?k = "\<lparr>shape = [1, 1, 128], data = replicate 128 (1 :: int)\<rparr>"
  let ?v = "\<lparr>shape = [1, 1, 128], data = replicate 128 (2 :: int)\<rparr>"
  let ?c = "\<lparr>shape = [1, 2, 2, 128], data = replicate 512 (0 :: int)\<rparr>"
  have "\<exists>cache'.
           write_to_kv_cache ?k ?v ?c [1] = (Inr (), cache')
         \<and> shape cache' = shape ?c
         \<and> wf_tensor cache'
         \<and> (\<forall>r. int r \<notin> set [1] \<longrightarrow>
               slice_at (flatten01 cache') r = slice_at (flatten01 ?c) r)"
    by (rule write_to_kv_cache_frame [where N = 1 and B = 2 and H = 1 and D = 128 and T = 1])
       (simp_all add: wf_tensor_def numel_def)
  then obtain cache' where
    run: "write_to_kv_cache ?k ?v ?c [1] = (Inr (), cache')"
    and frame: "\<And>r. int r \<notin> set [1] \<Longrightarrow>
        slice_at (flatten01 cache') r = slice_at (flatten01 ?c) r"
    by blast
  have "slice_at (flatten01 cache') 0 = slice_at (flatten01 ?c) 0"
    by (rule frame) simp
  also have "\<dots> = replicate 256 0"
    by (simp add: slice_at_def flatten01_def row_def)
  finally show ?thesis using run by blast
qed

section \<open>Alignment padding: the claim\<close>

text \<open>
  Claim C5. Take a head width \<open>D\<close> that is not a multiple of 128 and let \<open>Dp\<close> be the
  smallest multiple of 128 above it. On a call that reaches the attention step (no output
  scale, layer scales 1, query of shape \<open>[T, Hq * D]\<close>, key and value of shape
  \<open>[T, Hk * D]\<close>, a non-empty pool of shape \<open>[N, B, 2 * Hk, Dp]\<close>, \<open>T\<close> slot indices in range,
  and a kernel that answers a well-formed query with a well-formed tensor of the same shape)
  \<open>forward\<close> returns, and:
  the query handed to the kernel has shape \<open>[T, Hq, Dp]\<close> and each of its head vectors is the
  original one followed by \<open>Dp - D\<close> zeros; the key and value handed to the cache write (when
  the layer does not share its cache) are padded in the same way; the kernel sees the pool
  as it is after that write; and the tensor returned has shape \<open>[T, Hq * D]\<close>, each of its
  head vectors being the first \<open>D\<close> elements of the kernel's.
\<close>

theorem forward_pads_and_slices:
  fixes query :: "'a::{zero,one} tensor"
  assumes hs: "head_size self = int D" and D: "0 < D" and nd: "\<not> 128 dvd D"
    and Dp: "128 dvd Dp" "D \<le> Dp" "Dp < D + 128"
    and nh: "num_heads self = int Hq"
    and nk: "num_kv_heads self = int Hk" "0 < Hk"
    and os: "output_scale = None"
    and sc: "k_scale_float layer = 1" "v_scale_float layer = 1"
    and q: "shape query = [T, Hq * D]" "wf_tensor query"
    and k: "shape key = [T, Hk * D]" "wf_tensor key"
    and v: "shape value = [T, Hk * D]" "wf_tensor value"
    and c: "shape kv_cache = [N, B, 2 * Hk, Dp]" "wf_tensor kv_cache" "0 < N * B"
    and sl: "length (slot_mapping attn_metadata) = T"
      "\<forall>s \<in> set (slot_mapping attn_metadata). 0 \<le> s \<and> s < int (N * B)"
    and kern: "\<forall>a. wf_tensor (k_query a) \<longrightarrow>
        (\<exists>out. ragged_paged_attention a = Some out \<and> shape out = shape (k_query a)
               \<and> wf_tensor out)"
  shows "\<exists>args out res cache' kp vp.
           forward self layer query key value kv_cache attn_metadata out_buf output_scale
             ragged_paged_attention =
             \<lparr>outcome = Inr res, cache_after = cache', kernel_calls = [args]\<rparr>
         \<and> shape (k_query args) = [T, Hq, Dp]
         \<and> (\<forall>i < T * Hq.
               row Dp i (data (k_query args)) = row D i (data query) @ replicate (Dp - D) 0)
         \<and> shape kp = [T, Hk, Dp] \<and> shape vp = [T, Hk, Dp]
         \<and> (\<forall>i < T * Hk.
               row Dp i (data kp) = row D i (data key) @ replicate (Dp - D) 0
             \<and> row Dp i (data vp) = row D i (data value) @ replicate (Dp - D) 0)
         \<and> (if kv_sharing_target_layer_name self = None
             then write_to_kv_cache kp vp kv_cache (slot_mapping attn_metadata) = (Inr (), cache')
             else cache' = kv_cache)
         \<and> k_kv_cache args = cache'
         \<and> ragged_paged_attention args = Some out
         \<and> shape res = [T, Hq * D]
         \<and> (\<forall>i < T * Hq. row D i (data res) = take D (row Dp i (data out)))"
proof -
  define p where "p = Dp - D"
  have Dpp: "D + p = Dp" using Dp(2) by (simp add: p_def)
  have Dp0: "0 < Dp" using D Dp(2) by simp
  define q3 where "q3 = query\<lparr>shape := [T, Hq, D]\<rparr>"
  define k3 where "k3 = key\<lparr>shape := [T, Hk, D]\<rparr>"
  define v3 where "v3 = value\<lparr>shape := [T, Hk, D]\<rparr>"
  define pad where "pad = (\<lambda>n (xs :: 'a list).
      concat (map (\<lambda>i. row D i xs @ replicate p 0) [0..<n]))"
  define qp where "qp = \<lparr>shape = [T, Hq, Dp], data = pad (T * Hq) (data query)\<rparr>"
  define kp where "kp = \<lparr>shape = [T, Hk, Dp], data = pad (T * Hk) (data key)\<rparr>"
  define vp where "vp = \<lparr>shape = [T, Hk, Dp], data = pad (T * Hk) (data value)\<rparr>"
  have lq: "length (data query) = T * Hq * D" using q by (simp add: wf_tensor_def numel_def)
  have lk: "length (data key) = T * Hk * D" using k by (simp add: wf_tensor_def numel_def)
  have lv: "length (data value) = T * Hk * D" using v by (simp add: wf_tensor_def numel_def)
  have vq: "view query [int T, num_heads self, head_size self] = Inr q3"
    unfolding nh hs q3_def using q(1) by (intro view_3d) (simp add: numel_def)
  have vk: "view key [- 1, num_kv_heads self, head_size self] = Inr k3"
    unfolding nk hs k3_def using nk(2) D k(1) by (intro view_rows) (simp_all add: numel_def)
  have vv: "view value [- 1, num_kv_heads self, head_size self] = Inr v3"
    unfolding nk hs v3_def using nk(2) D v(1) by (intro view_rows) (simp_all add: numel_def)
  have "\<not> (128::int) dvd int D" using nd by presburger
  then have md: "head_size self mod TPU_HEAD_SIZE_ALIGNMENT \<noteq> 0"
    unfolding hs TPU_HEAD_SIZE_ALIGNMENT_def by (simp add: dvd_eq_mod_eq_0)
  have cd: "cdiv (head_size self) TPU_HEAD_SIZE_ALIGNMENT = Inr ((int D + 127) div 128)"
    unfolding hs TPU_HEAD_SIZE_ALIGNMENT_def by (rule cdiv_128)
  have "(int D + 127) div 128 * 128 = int Dp" using Dp by (rule padded_width)
  then have pn: "nat ((int D + 127) div 128 * TPU_HEAD_SIZE_ALIGNMENT - head_size self) = p"
    unfolding hs TPU_HEAD_SIZE_ALIGNMENT_def p_def by simp
  have pq: "pad_last q3 p = Inr qp"
    unfolding qp_def pad_def using pad_last_3d [of q3 T Hq D p] by (simp add: q3_def Dpp)
  have pk: "pad_last k3 p = Inr kp"
    unfolding kp_def pad_def using pad_last_3d [of k3 T Hk D p] by (simp add: k3_def Dpp)
  have pv: "pad_last v3 p = Inr vp"
    unfolding vp_def pad_def using pad_last_3d [of v3 T Hk D p] by (simp add: v3_def Dpp)
  have rows_q: "\<forall>i < T * Hq. row Dp i (data qp) = row D i (data query) @ replicate (Dp - D) 0"
    using padded_rows [of "data query" "T * Hq" D _ p] lq
    by (simp add: qp_def pad_def Dpp p_def [symmetric])
  have rows_kv: "\<forall>i < T * Hk.
        row Dp i (data kp) = row D i (data key) @ replicate (Dp - D) 0
      \<and> row Dp i (data vp) = row D i (data value) @ replicate (Dp - D) 0"
    using padded_rows [of "data key" "T * Hk" D _ p] padded_rows [of "data value" "T * Hk" D _ p]
      lk lv
    by (simp add: kp_def vp_def pad_def Dpp p_def [symmetric])
  have wqp: "wf_tensor qp"
    using length_padded [of "data query" "T * Hq" D p] lq
    by (simp add: wf_tensor_def numel_def qp_def pad_def Dpp)
  have wkp: "wf_tensor kp"
    using length_padded [of "data key" "T * Hk" D p] lk
    by (simp add: wf_tensor_def numel_def kp_def pad_def Dpp)
  have wvp: "wf_tensor vp"
    using length_padded [of "data value" "T * Hk" D p] lv
    by (simp add: wf_tensor_def numel_def vp_def pad_def Dpp)
  have ne: "0 < numel kv_cache"
    using c(1,3) nk(2) Dp0 by (simp add: numel_def)
  have "\<exists>cache'. (if kv_sharing_target_layer_name self = None
              then write_to_kv_cache kp vp kv_cache (slot_mapping attn_metadata)
              else (Inr (), kv_cache)) = (Inr (), cache')"
  proof (cases "kv_sharing_target_layer_name self = None")
    case True
    have "shape kp = [T, Hk, Dp]" and "shape vp = [T, Hk, Dp]" by (simp_all add: kp_def vp_def)
    from write_to_kv_cache_loop [OF c(1,2) Dp0 Dp(1) nk(2) this(1) wkp this(2) wvp sl]
    show ?thesis using True by auto
  next
    case False
    then show ?thesis by auto
  qed
  then obtain cache' where
    wr: "(if kv_sharing_target_layer_name self = None
          then write_to_kv_cache kp vp kv_cache (slot_mapping attn_metadata)
          else (Inr (), kv_cache)) = (Inr (), cache')"
    by blast
  define args where "args =
      \<lparr>k_query = qp, k_kv_cache = cache',
       k_context_lens = context_lens attn_metadata,
       k_block_tables = block_tables attn_metadata,
       k_query_start_loc = query_start_loc attn_metadata,
       k_num_seqs = num_seqs attn_metadata,
       k_sm_scale = scale self,
       k_sliding_window = sliding_window self,
       k_soft_cap = logits_soft_cap self\<rparr>"
  have "wf_tensor (k_query args)" using wqp by (simp add: args_def)
  with kern obtain out where
    ke: "ragged_paged_attention args = Some out"
    and so: "shape out = shape (k_query args)" and wo: "wf_tensor out"
    by blast
  from so have so': "shape out = [T, Hq, Dp]" by (simp add: args_def qp_def)
  with wo have lo: "length (data out) = T * Hq * Dp" by (simp add: wf_tensor_def numel_def)
  define out' where "out' =
      \<lparr>shape = [T, Hq, D],
       data = concat (map (\<lambda>i. take D (row Dp i (data out))) [0..<T * Hq])\<rparr>"
  have sli: "slice_dim2 out (head_size self) = Inr out'"
    unfolding hs out'_def using so' Dp(2) by (rule slice_dim2_3d)
  define res where "res = out'\<lparr>shape := [T, Hq * D]\<rparr>"
  have rs: "reshape out' [int T, int (Hq * D)] = Inr res"
    unfolding reshape_def res_def by (rule view_2d) (simp add: out'_def numel_def)
  have rows_res: "\<forall>i < T * Hq. row D i (data res) = take D (row Dp i (data out))"
    using sliced_rows [of "data out" "T * Hq" Dp D] lo Dp(2)
    by (simp add: res_def out'_def)
  have run: "forward self layer query key value kv_cache attn_metadata out_buf output_scale
             ragged_paged_attention =
             \<lparr>outcome = Inr res, cache_after = cache', kernel_calls = [args]\<rparr>"
    unfolding args_def
    by (rule forward_main_path [OF os ne sc q(1) vq vk vv md cd _ _ _ wr _ sli rs])
       (simp_all add: pn pq pk pv ke [unfolded args_def])
  have w': "if kv_sharing_target_layer_name self = None
      then write_to_kv_cache kp vp kv_cache (slot_mapping attn_metadata) = (Inr (), cache')
      else cache' = kv_cache"
    using wr by (auto split: if_splits)
  have a1: "shape (k_query args) = [T, Hq, Dp]" by (simp add: args_def qp_def)
  have a2: "\<forall>i < T * Hq.
      row Dp i (data (k_query args)) = row D i (data query) @ replicate (Dp - D) 0"
    using rows_q by (simp add: args_def)
  have a3: "k_kv_cache args = cache'" by (simp add: args_def)
  have a4: "shape kp = [T, Hk, Dp] \<and> shape vp = [T, Hk, Dp]" by (simp add: kp_def vp_def)
  have a5: "shape res = [T, Hq * D]" by (simp add: res_def)
  from run a1 a2 a4 rows_kv w' a3 ke a5 rows_res show ?thesis by blast
qed

text \<open>
  The theorem for one token with one head of width 64 and a kernel that returns its query:
  the kernel receives 64 fives and 64 zeros, the caller gets the 64 fives back.
\<close>

theorem forward_pads_and_slices_witness:
  "\<exists>args res cache'.
     forward
       \<lparr>num_heads = 1, head_size = 64, scale = 1, num_kv_heads = 1, sliding_window = None,
        logits_soft_cap = None, kv_sharing_target_layer_name = None,
        num_queries_per_kv = 1\<rparr>
       \<lparr>k_scale_float = 1, v_scale_float = 1\<rparr>
       \<lparr>shape = [1, 64], data = replicate 64 (5 :: int)\<rparr>
       \<lparr>shape = [1, 64], data = replicate 64 6\<rparr>
       \<lparr>shape = [1, 64], data = replicate 64 7\<rparr>
       \<lparr>shape = [1, 1, 2, 128], data = replicate 256 9\<rparr>
       \<lparr>slot_mapping = [0], block_tables = \<lparr>shape = [1, 1], data = [0]\<rparr>,
        context_lens = \<lparr>shape = [1], data = [0]\<rparr>,
        query_start_loc = \<lparr>shape = [2], data = [0, 1]\<rparr>,
        num_seqs = \<lparr>shape = [1], data = [1]\<rparr>\<rparr>
       None (None :: int option) (\<lambda>a. Some (k_query a))
     = \<lparr>outcome = Inr res, cache_after = cache', kernel_calls = [args]\<rparr>
   \<and> shape (k_query args) = [1, 1, 128]
   \<and> row 128 0 (data (k_query args)) = replicate 64 5 @ replicate 64 0
   \<and> shape res = [1, 64]
   \<and> row 64 0 (data res) = replicate 64 5"
proof -
  let ?self = "\<lparr>num_heads = 1, head_size = 64, scale = 1, num_kv_heads = 1,
      sliding_window = None, logits_soft_cap = None, kv_sharing_target_layer_name = None,
      num_queries_per_kv = 1\<rparr>"
  let ?layer = "\<lparr>k_scale_float = 1, v_scale_float = 1\<rparr>"
  let ?q = "\<lparr>shape = [1, 64], data = replicate 64 (5 :: int)\<rparr>"
  let ?k = "\<lparr>shape = [1, 64], data = replicate 64 (6 :: int)\<rparr>"
  let ?v = "\<lparr>shape = [1, 64], data = replicate 64 (7 :: int)\<rparr>"
  let ?c = "\<lparr>shape = [1, 1, 2, 128], data = replicate 256 (9 :: int)\<rparr>"
  let ?md = "\<lparr>slot_mapping = [0], block_tables = \<lparr>shape = [1, 1], data = [0]\<rparr>,
      context_lens = \<lparr>shape = [1], data = [0]\<rparr>,
      query_start_loc = \<lparr>shape = [2], data = [0, 1]\<rparr>,
      num_seqs = \<lparr>shape = [1], data = [1]\<rparr>\<rparr>"
  let ?kern = "\<lambda>a :: int kernel_args. Some (k_query a)"
  have h1: "head_size ?self = int 64" by simp
  have h2: "0 < (64 :: nat)" by simp
  have h3: "\<not> 128 dvd (64 :: nat)" by simp
  have h4: "128 dvd (128 :: nat)" by simp
  have h5: "(64 :: nat) \<le> 128" by simp
  have h6: "(128 :: nat) < 64 + 128" by simp
  have h7: "num_heads ?self = int 1" by simp
  have h8: "num_kv_heads ?self = int 1" by simp
  have h9: "0 < (1 :: nat)" by simp
  have h10: "(None :: int option) = None" by simp
  have h11: "k_scale_float ?layer = 1" by simp
  have h12: "v_scale_float ?layer = 1" by simp
  have h13: "shape ?q = [1, 1 * 64]" by simp
  have h14: "wf_tensor ?q" by (simp add: wf_tensor_def numel_def)
  have h15: "shape ?k = [1, 1 * 64]" by simp
  have h16: "wf_tensor ?k" by (simp add: wf_tensor_def numel_def)
  have h17: "shape ?v = [1, 1 * 64]" by simp
  have h18: "wf_tensor ?v" by (simp add: wf_tensor_def numel_def)
  have h19: "shape ?c = [1, 1, 2 * 1, 128]" by simp
  have h20: "wf_tensor ?c" by (simp add: wf_tensor_def numel_def)
  have h21: "0 < (1 :: nat) * 1" by simp
  have h22: "length (slot_mapping ?md) = 1" by simp
  have h23: "\<forall>s \<in> set (slot_mapping ?md). 0 \<le> s \<and> s < int (1 * 1)" by simp
  have h24: "\<forall>a. wf_tensor (k_query a) \<longrightarrow>
      (\<exists>out. ?kern a = Some out \<and> shape out = shape (k_query a) \<and> wf_tensor out)"
    by simp
  from forward_pads_and_slices [OF h1 h2 h3 h4 h5 h6 h7 h8 h9 h10 h11 h12 h13 h14 h15 h16
      h17 h18 h19 h20 h21 h22 h23 h24, where out_buf = None]
  obtain args out res cache' where
    run: "forward ?self ?layer ?q ?k ?v ?c ?md None (None :: int option) ?kern =
        \<lparr>outcome = Inr res, cache_after = cache', kernel_calls = [args]\<rparr>"
    and sq: "shape (k_query args) = [1, 1, 128]"
    and rq: "\<forall>i < 1 * 1. row 128 i (data (k_query args)) =
        row 64 i (data ?q) @ replicate (128 - 64) 0"
    and ke: "?kern args = Some out"
    and sr: "shape res = [1, 1 * 64]"
    and rr: "\<forall>i < 1 * 1. row 64 i (data res) = take 64 (row 128 i (data out))"
    by blast
  have r0: "row 64 0 (replicate 64 (5 :: int)) = replicate 64 5" by (simp add: row_def)
  from rq have a: "row 128 0 (data (k_query args)) = replicate 64 5 @ replicate 64 0"
    by (simp add: r0)
  from ke have "out = k_query args" by simp
  with rr a have b: "row 64 0 (data res) = replicate 64 5" by simp
  from sr have c: "shape res = [1, 64]" by simp
  from run sq a c b show ?thesis by blast
qed

end
